theory Spec2Isabelle
  imports Complex_Main
begin

section \<open>Numeric model\<close>

text \<open>
  The Go program computes with \<^verbatim>\<open>float64\<close> and \<^verbatim>\<open>complex128\<close>. They are
  embedded as \<^typ>\<open>real\<close> and \<^typ>\<open>complex\<close>: arithmetic is exact, rounding and
  overflow of the machine formats are not part of the model. The one way the code can
  produce a non-finite value in exact arithmetic is a division by zero; a possibly
  non-finite \<^verbatim>\<open>complex128\<close> is therefore a \<^typ>\<open>complex option\<close>, where \<open>None\<close>
  stands for the Inf/NaN value that Go's division yields (Go does not panic on a
  floating-point division by zero). A result \<open>None\<close> of the model is a non-finite
  value of the program; a result \<open>Some z\<close> says nothing about overflow or rounding of
  the machine value. Go's \<^verbatim>\<open>int\<close> is embedded as \<^typ>\<open>int\<close>; the
  term counts of the program (at most \<open>65 * 10^9\<close>) are far from the 64-bit limits.
\<close>

type_synonym c128 = "complex option"

definition c128_add :: "c128 \<Rightarrow> c128 \<Rightarrow> c128" where
  "c128_add x y = (case x of None \<Rightarrow> None
                   | Some a \<Rightarrow> (case y of None \<Rightarrow> None | Some b \<Rightarrow> Some (a + b)))"

definition c128_div :: "complex \<Rightarrow> complex \<Rightarrow> c128" where
  "c128_div x y = (if y = 0 then None else Some (x / y))"

text \<open>\<^verbatim>\<open>int(x)\<close> on a float truncates toward zero.\<close>

definition go_int :: "real \<Rightarrow> int" where
  "go_int x = (if 0 \<le> x then \<lfloor>x\<rfloor> else \<lceil>x\<rceil>)"

text \<open>Integer division of Go truncates toward zero (the divisor is not zero here).\<close>

definition go_quot :: "int \<Rightarrow> int \<Rightarrow> int" where
  "go_quot a b = sgn a * sgn b * (\<bar>a\<bar> div \<bar>b\<bar>)"

text \<open>
  \<^verbatim>\<open>cmplx.Pow(complex(float64(k), 0), y)\<close> of the Go library at a positive real base:
  \<open>k\<^sup>y = exp (y ln k)\<close>. With a term count \<open>N \<ge> 1\<close> the summation engine calls it at
  the bases \<open>1, \<dots>, N\<close> only.
\<close>

definition cmplx_Pow :: "int \<Rightarrow> complex \<Rightarrow> complex" where
  "cmplx_Pow k y = exp (y * of_real (ln (of_int k)))"

section \<open>The chunked summation engine\<close>

text \<open>The package-level variables \<^verbatim>\<open>MinN\<close>, \<^verbatim>\<open>MaxN\<close>, \<^verbatim>\<open>ChunkSize\<close>.\<close>

record config =
  MinN :: int
  MaxN :: int
  ChunkSize :: int

definition defaultConfig :: config where
  "defaultConfig = \<lparr> MinN = 100, MaxN = 65000000000, ChunkSize = 100000 \<rparr>"

datatype error = DivideByZero | NegativeLen

text \<open>\<^verbatim>\<open>computePartialSumWithLinks\<close>: the loop \<^verbatim>\<open>for k := start; k < end; k++\<close>.\<close>

function computeLoop :: "complex \<Rightarrow> int \<Rightarrow> int \<Rightarrow> complex \<Rightarrow> complex list \<Rightarrow> complex \<times> complex list" where
  "computeLoop s k ed partialSum linkList =
     (if k < ed
      then (let term_k = cmplx_Pow k (- s);
                partialSum' = partialSum + term_k
            in computeLoop s (k + 1) ed partialSum' (linkList @ [partialSum']))
      else (partialSum, linkList))"
  by pat_completeness auto
termination
  by (relation "measure (\<lambda>(s, k, ed, p, l). nat (ed - k))") auto

declare computeLoop.simps [simp del]

definition computePartialSumWithLinks :: "int \<Rightarrow> int \<Rightarrow> complex \<Rightarrow> complex \<times> complex list" where
  "computePartialSumWithLinks start ed s = computeLoop s start ed 0 []"

text \<open>The clamped term count \<^verbatim>\<open>N\<close> of \<^verbatim>\<open>calculateSpiralPartialSums\<close>.\<close>

definition termCount :: "config \<Rightarrow> complex \<Rightarrow> int" where
  "termCount cfg s =
     (let N = go_int (cmod s)
      in if N < MinN cfg then MinN cfg else if N > MaxN cfg then MaxN cfg else N)"

definition numChunksOf :: "config \<Rightarrow> int \<Rightarrow> int" where
  "numChunksOf cfg N = go_quot (N + ChunkSize cfg - 1) (ChunkSize cfg)"

text \<open>The bounds \<^verbatim>\<open>[start, end)\<close> that the launch loop hands to goroutine \<open>i\<close>.\<close>

definition chunkBounds :: "config \<Rightarrow> int \<Rightarrow> int \<Rightarrow> int \<times> int" where
  "chunkBounds cfg N i =
     (let start = i * ChunkSize cfg + 1;
          ed = start + ChunkSize cfg
      in (start, if ed > N then N else ed))"

definition chunkList :: "config \<Rightarrow> int \<Rightarrow> (int \<times> int) list" where
  "chunkList cfg N = map (\<lambda>i. chunkBounds cfg N (int i)) [0..<nat (numChunksOf cfg N)]"

text \<open>
  Every goroutine writes slot \<open>idx\<close> of \<^verbatim>\<open>partialSums\<close> and \<^verbatim>\<open>allChunkLinks\<close> and
  nothing else, and the chaining starts after \<^verbatim>\<open>wg.Wait()\<close>: the two slices then hold,
  in chunk order, the results of \<^verbatim>\<open>computePartialSumWithLinks\<close>.
\<close>

definition chunkResults :: "config \<Rightarrow> int \<Rightarrow> complex \<Rightarrow> (complex \<times> complex list) list" where
  "chunkResults cfg N s = map (\<lambda>(st, ed). computePartialSumWithLinks st ed s) (chunkList cfg N)"

text \<open>The chaining loop over the chunks, in index order.\<close>

fun chainLoop :: "complex \<Rightarrow> complex list \<Rightarrow> (complex \<times> complex list) list \<Rightarrow> complex \<times> complex list" where
  "chainLoop runningSum chainedLinks [] = (runningSum, chainedLinks)"
| "chainLoop runningSum chainedLinks ((sumVal, linkVals) # rest) =
     chainLoop (runningSum + sumVal) (chainedLinks @ map (\<lambda>v. v + runningSum) linkVals) rest"

text \<open>The Euler-Maclaurin correction \<^verbatim>\<open>term1 + term2\<close>.\<close>

definition correction :: "int \<Rightarrow> complex \<Rightarrow> c128" where
  "correction N s =
     (let term1 = c128_div (cmplx_Pow N (1 - s)) (s - 1);
          term2 = Some (0.5 * cmplx_Pow N (- s))
      in c128_add term1 term2)"

definition addToLast :: "complex list \<Rightarrow> c128 \<Rightarrow> c128 list" where
  "addToLast chainedLinks corr =
     (if length chainedLinks > 0
      then (map Some chainedLinks)[length chainedLinks - 1 := c128_add (Some (last chainedLinks)) corr]
      else [])"

definition calculateSpiralPartialSums :: "config \<Rightarrow> complex \<Rightarrow> error + (c128 \<times> c128 list)" where
  "calculateSpiralPartialSums cfg s =
     (let N = termCount cfg s
      in if ChunkSize cfg = 0 then Inl DivideByZero
         else if numChunksOf cfg N < 0 then Inl NegativeLen
         else (let (runningSum, chainedLinks) = chainLoop 0 [] (chunkResults cfg N s);
                   corr = correction N s
               in Inr (c128_add (Some runningSum) corr, addToLast chainedLinks corr)))"

text \<open>The plain cumulative sum of the terms \<open>a, \<dots>, b - 1\<close>.\<close>

definition termSum :: "complex \<Rightarrow> int \<Rightarrow> int \<Rightarrow> complex" where
  "termSum s a b = (\<Sum>k\<in>{a..<b}. cmplx_Pow k (- s))"

text \<open>A list of ranges is contiguous from \<open>a\<close> to \<open>b\<close>: each starts where the previous one ends.\<close>

fun contiguous :: "int \<Rightarrow> (int \<times> int) list \<Rightarrow> int \<Rightarrow> bool" where
  "contiguous a [] b = (a = b)"
| "contiguous a ((st, ed) # rs) b = (st = a \<and> st \<le> ed \<and> contiguous ed rs b)"

text \<open>A small configuration, used to run the engine on a short range.\<close>

definition smallConfig :: config where
  "smallConfig = \<lparr> MinN = 3, MaxN = 10, ChunkSize = 2 \<rparr>"

section \<open>The pixel-space downsampler\<close>

text \<open>\<^verbatim>\<open>math.Round\<close> rounds half away from zero.\<close>

definition math_Round :: "real \<Rightarrow> real" where
  "math_Round x = (if 0 \<le> x then of_int \<lfloor>x + 1 / 2\<rfloor> else - of_int \<lfloor>- x + 1 / 2\<rfloor>)"

text \<open>
  When all points share one coordinate, \<^verbatim>\<open>pixelForLink\<close> divides zero by zero and
  converts the NaN to \<^verbatim>\<open>int\<close>. Go leaves the result of that conversion to the
  implementation; the value below is the one of amd64.
\<close>

definition intOfNaN :: int where
  "intOfNaN = - 9223372036854775808"

record bounds =
  minX :: real
  maxX :: real
  minY :: real
  maxY :: real

text \<open>The loop that determines the view bounds from the links.\<close>

fun boundsLoop :: "bounds \<Rightarrow> complex list \<Rightarrow> bounds" where
  "boundsLoop b [] = b"
| "boundsLoop b (link # rest) =
     (let x = Re link;
          y = Im link;
          b1 = (if x < minX b then b\<lparr>minX := x\<rparr> else b);
          b2 = (if x > maxX b1 then b1\<lparr>maxX := x\<rparr> else b1);
          b3 = (if y < minY b2 then b2\<lparr>minY := y\<rparr> else b2);
          b4 = (if y > maxY b3 then b3\<lparr>maxY := y\<rparr> else b3)
      in boundsLoop b4 rest)"

declare boundsLoop.simps [simp del]

definition viewBounds :: "complex list \<Rightarrow> bounds" where
  "viewBounds links =
     boundsLoop \<lparr>minX = Re (links ! 0), maxX = Re (links ! 0),
                 minY = Im (links ! 0), maxY = Im (links ! 0)\<rparr> links"

definition relativeSpread :: "bounds \<Rightarrow> real" where
  "relativeSpread b =
     (let maxRange = max (maxX b - minX b) (maxY b - minY b);
          baseRange = max 0.01 maxRange
      in maxRange / baseRange)"

definition maxRelativeSpread :: "real \<Rightarrow> real" where
  "maxRelativeSpread aggressiveness =
     (let m0 = 0.0001;
          m1 = (if aggressiveness > 0 then m0 * (5 powr aggressiveness) else m0)
      in if aggressiveness > 3.5
         then (let t = (aggressiveness - 3.5) / 0.5 in 0.03 + 0.02 * t)
         else m1)"

definition pixelSpreadThreshold :: "real \<Rightarrow> real" where
  "pixelSpreadThreshold aggressiveness =
     (if aggressiveness > 0 then 1 + aggressiveness * 2 else 1)"

definition interpolationThreshold :: "real \<Rightarrow> real" where
  "interpolationThreshold aggressiveness =
     (let i0 = 1.1 * (2.5 powr aggressiveness)
      in if aggressiveness > 3.5
         then (let t = (aggressiveness - 3.5) / 0.5 in 55 + 20 * t)
         else i0)"

text \<open>The average of all links, returned when the whole input collapses.\<close>

definition averageOf :: "complex list \<Rightarrow> complex" where
  "averageOf links = foldl (+) 0 links / of_nat (length links)"

definition axisPixel :: "real \<Rightarrow> real \<Rightarrow> int \<Rightarrow> real \<Rightarrow> int" where
  "axisPixel lo hi outputSize v =
     (if hi = lo then intOfNaN
      else go_int (math_Round ((v - lo) / (hi - lo) * of_int outputSize)))"

definition pixelForLink :: "bounds \<Rightarrow> int \<Rightarrow> complex \<Rightarrow> int \<times> int" where
  "pixelForLink b outputSize link =
     (axisPixel (minX b) (maxX b) outputSize (Re link),
      axisPixel (minY b) (maxY b) outputSize (Im link))"

record groupData =
  sumv :: complex
  count :: int
  pixelX :: int
  pixelY :: int
  lastLink :: complex

definition newGroup :: "complex \<Rightarrow> int \<Rightarrow> int \<Rightarrow> groupData" where
  "newGroup link px py = \<lparr>sumv = link, count = 1, pixelX = px, pixelY = py, lastLink = link\<rparr>"

definition flushGroup :: "groupData \<Rightarrow> complex" where
  "flushGroup g = sumv g / of_int (count g)"

text \<open>The number of interpolated points for a pixel gap above the threshold.\<close>

definition interpSteps :: "real \<Rightarrow> real \<Rightarrow> int" where
  "interpSteps aggressiveness pixelGap =
     (let steps = go_int (pixelGap / (2 powr (min aggressiveness 3.5)))
      in if aggressiveness > 3.5
         then (let t = (aggressiveness - 3.5) / 0.5
               in go_int (of_int steps * (1 - 0.5 * t)))
         else steps)"

text \<open>The loop \<^verbatim>\<open>for s := 1; s <= steps; s++\<close> that appends the interpolated points.\<close>

definition interpolate :: "complex \<Rightarrow> complex \<Rightarrow> int \<Rightarrow> complex list" where
  "interpolate lastL link steps =
     map (\<lambda>s. let t = of_int s / of_int (steps + 1) :: real
              in lastL * (1 - of_real t) + link * of_real t) [1..steps]"

definition pixelGapOf :: "int \<Rightarrow> int \<Rightarrow> real" where
  "pixelGapOf dx dy = sqrt (of_int (dx * dx + dy * dy))"

text \<open>
  The grouping loop over the points after the first, shared by the serial downsampler and
  by every worker of the parallel one: the current group and the output so far are the
  loop state.
\<close>

fun groupLoop :: "bounds \<Rightarrow> int \<Rightarrow> real \<Rightarrow> groupData \<Rightarrow> complex list \<Rightarrow> complex list
                  \<Rightarrow> groupData \<times> complex list" where
  "groupLoop b outputSize aggressiveness currentGroup downsampled [] = (currentGroup, downsampled)"
| "groupLoop b outputSize aggressiveness currentGroup downsampled (link # rest) =
     (let (px, py) = pixelForLink b outputSize link
      in if (px = pixelX currentGroup \<and> py = pixelY currentGroup)
            \<or> (\<bar>of_int (px - pixelX currentGroup)\<bar> \<le> pixelSpreadThreshold aggressiveness
               \<and> \<bar>of_int (py - pixelY currentGroup)\<bar> \<le> pixelSpreadThreshold aggressiveness)
         then groupLoop b outputSize aggressiveness
                (currentGroup\<lparr>sumv := sumv currentGroup + link,
                               count := count currentGroup + 1,
                               lastLink := link\<rparr>)
                downsampled rest
         else (let avg = flushGroup currentGroup;
                   downsampled1 = downsampled @ [avg];
                   dx = px - pixelX currentGroup;
                   dy = py - pixelY currentGroup;
                   pixelGap = pixelGapOf dx dy;
                   downsampled2 =
                     (if pixelGap > interpolationThreshold aggressiveness
                      then downsampled1
                           @ interpolate (lastLink currentGroup) link (interpSteps aggressiveness pixelGap)
                      else downsampled1)
               in groupLoop b outputSize aggressiveness (newGroup link px py) downsampled2 rest))"

declare groupLoop.simps [simp del]

text \<open>\<^verbatim>\<open>downsampleComplexSerial\<close>; the debug flag only switches logging on.\<close>

definition downsampleComplexSerial :: "complex list \<Rightarrow> int \<Rightarrow> real \<Rightarrow> bool \<Rightarrow> complex list" where
  "downsampleComplexSerial links outputSize aggressiveness debug =
     (if length links = 0 then links
      else (let b = viewBounds links
            in if relativeSpread b \<le> maxRelativeSpread aggressiveness
               then [averageOf links]
               else (let (initPx, initPy) = pixelForLink b outputSize (links ! 0);
                         (currentGroup, downsampled) =
                            groupLoop b outputSize aggressiveness
                              (newGroup (links ! 0) initPx initPy) [] (drop 1 links)
                     in downsampled @ [flushGroup currentGroup])))"

record chunkResult =
  points :: "complex list"
  lastPoint :: complex
  lastPx :: int
  lastPy :: int

text \<open>
  One worker of \<^verbatim>\<open>downsampleComplex\<close> on \<^verbatim>\<open>links[start:end]\<close>. A worker with an empty
  range sends the zero value of the result.
\<close>

definition processChunk :: "bounds \<Rightarrow> int \<Rightarrow> real \<Rightarrow> complex list \<Rightarrow> int \<Rightarrow> int \<Rightarrow> chunkResult" where
  "processChunk b outputSize aggressiveness links start ed =
     (if start \<ge> ed then \<lparr>points = [], lastPoint = 0, lastPx = 0, lastPy = 0\<rparr>
      else (let (initPx, initPy) = pixelForLink b outputSize (links ! nat start);
                (currentGroup, chunkPoints) =
                   groupLoop b outputSize aggressiveness
                     (newGroup (links ! nat start) initPx initPy) []
                     (take (nat (ed - (start + 1))) (drop (nat (start + 1)) links))
            in \<lparr>points = chunkPoints @ [flushGroup currentGroup],
                lastPoint = lastLink currentGroup,
                lastPx = pixelX currentGroup,
                lastPy = pixelY currentGroup\<rparr>))"

text \<open>The results of the workers \<open>0, \<dots>, numWorkers - 1\<close>, collected by worker index.\<close>

definition collectChunks :: "bounds \<Rightarrow> int \<Rightarrow> real \<Rightarrow> complex list \<Rightarrow> int \<Rightarrow> chunkResult list" where
  "collectChunks b outputSize aggressiveness links numWorkers =
     (let chunkSize = go_quot (int (length links) + numWorkers - 1) numWorkers
      in map (\<lambda>w. let start = int w * chunkSize;
                       ed = start + chunkSize
                   in processChunk b outputSize aggressiveness links start
                        (if ed > int (length links) then int (length links) else ed))
             [0..<nat numWorkers])"

text \<open>The merge loop over the collected results, in worker order.\<close>

fun mergeLoop :: "real \<Rightarrow> chunkResult list \<Rightarrow> complex list \<Rightarrow> complex list" where
  "mergeLoop aggressiveness [] finalPoints = finalPoints"
| "mergeLoop aggressiveness (c # rest) finalPoints =
     (if length (points c) = 0 then mergeLoop aggressiveness rest finalPoints
      else (let finalPoints1 = finalPoints @ points c;
                finalPoints2 =
                  (case rest of
                     [] \<Rightarrow> finalPoints1
                   | nxt # _ \<Rightarrow>
                       if length (points nxt) > 0
                       then (let dx = lastPx nxt - lastPx c;
                                 dy = lastPy nxt - lastPy c;
                                 gap = pixelGapOf dx dy
                             in if gap > interpolationThreshold aggressiveness
                                then finalPoints1
                                     @ interpolate (lastPoint c) (points nxt ! 0)
                                         (interpSteps aggressiveness gap)
                                else finalPoints1)
                       else finalPoints1)
            in mergeLoop aggressiveness rest finalPoints2))"

declare mergeLoop.simps [simp del]

text \<open>
  \<^verbatim>\<open>downsampleComplex\<close>. The number of workers is \<^verbatim>\<open>runtime.NumCPU()\<close>, at least 1,
  taken as a parameter.
\<close>

definition downsampleComplex :: "int \<Rightarrow> complex list \<Rightarrow> int \<Rightarrow> real \<Rightarrow> bool \<Rightarrow> complex list" where
  "downsampleComplex numWorkers links outputSize aggressiveness debug =
     (if length links < 10000
      then downsampleComplexSerial links outputSize aggressiveness debug
      else (let b = viewBounds links
            in if relativeSpread b \<le> maxRelativeSpread aggressiveness
               then [averageOf links]
               else mergeLoop aggressiveness
                      (collectChunks b outputSize aggressiveness links numWorkers) []))"

text \<open>The inputs of the package's tests \<^verbatim>\<open>TestDownsampleComplex_SamePixel\<close> and
  \<^verbatim>\<open>TestDownsampleComplex_Interpolate\<close>.\<close>

definition threePoints :: "complex list" where
  "threePoints = [Complex 1 1, Complex 1.0001 1.0001, Complex 1.0002 1.0002]"

definition twoPoints :: "complex list" where
  "twoPoints = [Complex 1 1, Complex 100 100]"

text \<open>A trajectory that goes back and forth along the diagonal.\<close>

definition zigzag :: "complex list" where
  "zigzag = [0, Complex 8 8, Complex 1 1, Complex 15 15, Complex 1 1, Complex 15 15]"

text \<open>
  An input of 10000 points for two workers: the trajectory rests at the origin and jumps to
  \<open>(100,100)\<close> with its last point, so that the two chunks meet inside one pixel bin.
  The two records are what the workers return on it.
\<close>

definition boundaryInput :: "complex list" where
  "boundaryInput = replicate 9999 0 @ [Complex 100 100]"

definition chunk0 :: chunkResult where
  "chunk0 = \<lparr>points = [0], lastPoint = 0, lastPx = 0, lastPy = 0\<rparr>"

definition chunk1 :: chunkResult where
  "chunk1 = \<lparr>points = 0 # interpolate 0 (Complex 100 100) 141 @ [Complex 100 100],
             lastPoint = Complex 100 100, lastPx = 100, lastPy = 100\<rparr>"

section \<open>Properties of the summation engine\<close>

lemma termSum_empty: "b \<le> a \<Longrightarrow> termSum s a b = 0"
  by (simp add: termSum_def)

lemma ivl_int_first: "a < b \<Longrightarrow> {a..<b} = insert a {a + 1..<b::int}"
  by auto

lemma ivl_int_last: "a \<le> b \<Longrightarrow> {a..<b + 1} = insert b {a..<b::int}"
  by auto

lemma termSum_first: "a < b \<Longrightarrow> termSum s a b = cmplx_Pow a (- s) + termSum s (a + 1) b"
  unfolding termSum_def by (subst ivl_int_first) simp_all

lemma termSum_last: "a \<le> b \<Longrightarrow> termSum s a (b + 1) = termSum s a b + cmplx_Pow b (- s)"
  unfolding termSum_def by (subst ivl_int_last) simp_all

lemma termSum_split: "a \<le> b \<Longrightarrow> b \<le> c \<Longrightarrow> termSum s a b + termSum s b c = termSum s a c"
proof -
  assume h: "a \<le> b" "b \<le> c"
  have "{a..<c} = {a..<b} \<union> {b..<c}" using h by auto
  moreover have "{a..<b} \<inter> {b..<c} = {}" by auto
  ultimately show ?thesis
    unfolding termSum_def by (simp add: sum.union_disjoint)
qed

lemma computeLoop_eq:
  "computeLoop s k ed p l =
     (p + termSum s k ed, l @ map (\<lambda>j. p + termSum s k (j + 1)) [k..ed - 1])"
proof (induction s k ed p l rule: computeLoop.induct)
  case (1 s k ed p l)
  show ?case
  proof (cases "k < ed")
    case True
    have up: "[k..ed - 1] = k # [k + 1..ed - 1]"
      using True by (simp add: upto_rec1)
    have m: "map (\<lambda>j. p + cmplx_Pow k (- s) + termSum s (k + 1) (j + 1)) [k + 1..ed - 1]
           = map (\<lambda>j. p + termSum s k (j + 1)) [k + 1..ed - 1]"
      by (rule map_cong) (auto simp: termSum_first)
    have k1: "termSum s k (k + 1) = cmplx_Pow k (- s)"
      by (simp add: termSum_first termSum_empty)
    show ?thesis
      using "1.IH"[OF True refl refl] True
      by (subst computeLoop.simps) (simp add: Let_def up m k1 termSum_first add.assoc)
  next
    case False
    then show ?thesis
      by (subst computeLoop.simps) (simp add: termSum_empty)
  qed
qed

lemma upto_join: "a \<le> ed \<Longrightarrow> 1 \<le> a \<Longrightarrow> [1..ed - 1] = [1..a - 1] @ [a..ed - 1]"
proof (cases "a = ed")
  case True
  then show ?thesis by simp
next
  case False
  assume "a \<le> ed" "1 \<le> a"
  with False have "1 \<le> a" "a \<le> ed - 1" by auto
  then show ?thesis by (rule upto_split1)
qed

lemma chainLoop_contiguous:
  "contiguous a rs b \<Longrightarrow> 1 \<le> a \<Longrightarrow>
   chainLoop (termSum s 1 a) (map (\<lambda>j. termSum s 1 (j + 1)) [1..a - 1])
       (map (\<lambda>(st, ed). computePartialSumWithLinks st ed s) rs)
   = (termSum s 1 b, map (\<lambda>j. termSum s 1 (j + 1)) [1..b - 1])"
proof (induction rs arbitrary: a)
  case Nil
  then show ?case by simp
next
  case (Cons r rs)
  obtain st ed where r: "r = (st, ed)" by (cases r)
  from Cons.prems r have h: "st = a" "a \<le> ed" "contiguous ed rs b" by auto
  have ed1: "1 \<le> ed" using h Cons.prems by linarith
  have upt: "[1..ed - 1] = [1..a - 1] @ [a..ed - 1]"
    using h(2) Cons.prems(2) by (rule_tac upto_join) 
  have m: "map (\<lambda>v. v + termSum s 1 a) (map (\<lambda>j. termSum s a (j + 1)) [a..ed - 1])
         = map (\<lambda>j. termSum s 1 (j + 1)) [a..ed - 1]"
  proof -
    have "termSum s a (j + 1) + termSum s 1 a = termSum s 1 (j + 1)" if "a \<le> j" for j
      using termSum_split[of 1 a "j + 1" s] that Cons.prems(2) by (simp add: add.commute)
    then show ?thesis by simp
  qed
  have cp: "computePartialSumWithLinks a ed s
            = (termSum s a ed, map (\<lambda>j. termSum s a (j + 1)) [a..ed - 1])"
    by (simp add: computePartialSumWithLinks_def computeLoop_eq)
  have sp: "termSum s 1 a + termSum s a ed = termSum s 1 ed"
    using termSum_split[of 1 a ed s] h(2) Cons.prems(2) by simp
  have "chainLoop (termSum s 1 a) (map (\<lambda>j. termSum s 1 (j + 1)) [1..a - 1])
          (map (\<lambda>(st, ed). computePartialSumWithLinks st ed s) (r # rs))
      = chainLoop (termSum s 1 a + termSum s a ed)
          (map (\<lambda>j. termSum s 1 (j + 1)) [1..a - 1]
           @ map (\<lambda>v. v + termSum s 1 a) (map (\<lambda>j. termSum s a (j + 1)) [a..ed - 1]))
          (map (\<lambda>(st, ed). computePartialSumWithLinks st ed s) rs)"
    unfolding r h(1) by (simp only: list.map prod.case cp chainLoop.simps)
  also have "\<dots> = chainLoop (termSum s 1 ed) (map (\<lambda>j. termSum s 1 (j + 1)) [1..ed - 1])
          (map (\<lambda>(st, ed). computePartialSumWithLinks st ed s) rs)"
    unfolding m sp upt map_append ..
  also have "\<dots> = (termSum s 1 b, map (\<lambda>j. termSum s 1 (j + 1)) [1..b - 1])"
    by (rule Cons.IH[OF h(3) ed1])
  finally show ?case .
qed


lemma numChunksOf_div:
  "1 \<le> ChunkSize cfg \<Longrightarrow> 1 \<le> N \<Longrightarrow> numChunksOf cfg N = (N + ChunkSize cfg - 1) div ChunkSize cfg"
  by (simp add: numChunksOf_def go_quot_def sgn_if)

lemma numChunksOf_bounds:
  assumes "1 \<le> ChunkSize cfg" "1 \<le> N"
  shows "(numChunksOf cfg N - 1) * ChunkSize cfg < N"
    and "N \<le> numChunksOf cfg N * ChunkSize cfg"
    and "1 \<le> numChunksOf cfg N"
proof -
  let ?C = "ChunkSize cfg"
  let ?n = "(N + ?C - 1) div ?C"
  have C: "0 < ?C" using assms by simp
  have e: "N + ?C - 1 = ?n * ?C + (N + ?C - 1) mod ?C" by simp
  have m: "0 \<le> (N + ?C - 1) mod ?C" "(N + ?C - 1) mod ?C < ?C"
    using C by simp_all
  have "(?n - 1) * ?C = ?n * ?C - ?C" by (simp add: algebra_simps)
  with e m show "(numChunksOf cfg N - 1) * ChunkSize cfg < N"
    unfolding numChunksOf_div[OF assms] by linarith
  from e m show "N \<le> numChunksOf cfg N * ChunkSize cfg"
    unfolding numChunksOf_div[OF assms] by linarith
  have "?C div ?C \<le> (N + ?C - 1) div ?C"
    using assms C by (intro zdiv_mono1) simp_all
  then show "1 \<le> numChunksOf cfg N"
    unfolding numChunksOf_div[OF assms] using C by simp
qed

lemma chunkBounds_inner:
  assumes "1 \<le> ChunkSize cfg" "1 \<le> N" "int m + 1 < numChunksOf cfg N"
  shows "chunkBounds cfg N (int m) = (int m * ChunkSize cfg + 1, int (Suc m) * ChunkSize cfg + 1)"
proof -
  have "(int m + 1) * ChunkSize cfg \<le> (numChunksOf cfg N - 1) * ChunkSize cfg"
    using assms by (intro mult_right_mono) simp_all
  with numChunksOf_bounds(1)[OF assms(1,2)]
  have "(int m + 1) * ChunkSize cfg < N" by linarith
  then show ?thesis
    by (simp add: chunkBounds_def Let_def algebra_simps)
qed

lemma chunkBounds_last:
  assumes "1 \<le> ChunkSize cfg" "1 \<le> N" "int m + 1 = numChunksOf cfg N"
  shows "chunkBounds cfg N (int m) = (int m * ChunkSize cfg + 1, N)"
    and "int m * ChunkSize cfg + 1 \<le> N"
proof -
  have n: "numChunksOf cfg N = int m + 1" using assms by simp
  from numChunksOf_bounds(1,2)[OF assms(1,2)]
  have b: "int m * ChunkSize cfg < N" "N \<le> (int m + 1) * ChunkSize cfg"
    unfolding n by simp_all
  then show "int m * ChunkSize cfg + 1 \<le> N" by simp
  from b show "chunkBounds cfg N (int m) = (int m * ChunkSize cfg + 1, N)"
    by (auto simp add: chunkBounds_def Let_def algebra_simps)
qed

lemma contiguous_chunks_from:
  assumes C: "1 \<le> ChunkSize cfg" and N: "1 \<le> N"
  shows "int m < numChunksOf cfg N \<Longrightarrow>
         contiguous (int m * ChunkSize cfg + 1)
           (map (\<lambda>i. chunkBounds cfg N (int i)) [m..<nat (numChunksOf cfg N)]) N"
proof (induction "nat (numChunksOf cfg N) - m" arbitrary: m)
  case 0
  then show ?case by simp
next
  case (Suc d)
  have lt: "m < nat (numChunksOf cfg N)" using Suc.prems by simp
  have up: "[m..<nat (numChunksOf cfg N)] = m # [Suc m..<nat (numChunksOf cfg N)]"
    using lt by (simp add: upt_conv_Cons)
  show ?case
  proof (cases "int m + 1 = numChunksOf cfg N")
    case True
    then have e: "[Suc m..<nat (numChunksOf cfg N)] = []" by simp
    show ?thesis
      unfolding up e using chunkBounds_last[OF C N True] by simp
  next
    case False
    then have inner: "int m + 1 < numChunksOf cfg N" using Suc.prems by simp
    have d: "d = nat (numChunksOf cfg N) - Suc m" using Suc.hyps(2) by simp
    have nx: "int (Suc m) < numChunksOf cfg N" using inner by simp
    have pos: "int m * ChunkSize cfg \<le> int (Suc m) * ChunkSize cfg"
      using C by (simp add: algebra_simps)
    show ?thesis
      unfolding up using Suc.hyps(1)[OF d nx] chunkBounds_inner[OF C N inner] pos
      by simp
  qed
qed

lemma contiguous_chunkList:
  assumes "1 \<le> ChunkSize cfg" "1 \<le> N"
  shows "contiguous 1 (chunkList cfg N) N"
  using contiguous_chunks_from[OF assms, of 0] numChunksOf_bounds(3)[OF assms]
  by (simp add: chunkList_def)

lemma chainLoop_chunkResults:
  assumes "1 \<le> ChunkSize cfg" "1 \<le> N"
  shows "chainLoop 0 [] (chunkResults cfg N s)
       = (termSum s 1 N, map (\<lambda>j. termSum s 1 (j + 1)) [1..N - 1])"
  using chainLoop_contiguous[OF contiguous_chunkList[OF assms], of s]
  by (simp add: chunkResults_def termSum_empty)

lemma termCount_ge:
  "1 \<le> MinN cfg \<Longrightarrow> MinN cfg \<le> MaxN cfg \<Longrightarrow> 1 \<le> termCount cfg s"
  by (simp add: termCount_def Let_def)

lemma spiral_eq:
  assumes "1 \<le> ChunkSize cfg" "1 \<le> MinN cfg" "MinN cfg \<le> MaxN cfg"
  shows "calculateSpiralPartialSums cfg s
       = Inr (c128_add (Some (termSum s 1 (termCount cfg s))) (correction (termCount cfg s) s),
              addToLast (map (\<lambda>j. termSum s 1 (j + 1)) [1..termCount cfg s - 1])
                        (correction (termCount cfg s) s))"
proof -
  have N: "1 \<le> termCount cfg s" using assms by (simp add: termCount_ge)
  have n: "\<not> numChunksOf cfg (termCount cfg s) < 0"
    using numChunksOf_bounds(3)[OF assms(1) N] by simp
  show ?thesis
    using assms(1) n
    by (simp add: calculateSpiralPartialSums_def Let_def chainLoop_chunkResults[OF assms(1) N])
qed

lemma last_sums:
  assumes "1 \<le> N"
  shows "last (0 # map (\<lambda>j. termSum s 1 (j + 1)) [1..N - 1]) = termSum s 1 N"
proof (cases "N = 1")
  case True
  then show ?thesis by (simp add: termSum_empty)
next
  case False
  then have "[1..N - 1] = [1..N - 1 - 1] @ [N - 1]"
    using assms by (intro upto_rec2) simp
  then show ?thesis by (simp add: last_map)
qed

lemma ceil_div_pos:
  assumes "0 < (c::int)"
  shows "\<lceil>of_int a / of_int c :: real\<rceil> = (if a mod c = 0 then a div c else a div c + 1)"
proof -
  have "\<lceil>of_int a / of_int c :: real\<rceil> = - ((- a) div c)"
    by (simp add: ceiling_divide_eq_div)
  also have "\<dots> = (if a mod c = 0 then a div c else a div c + 1)"
    using assms by (simp add: zdiv_zminus1_eq_if)
  finally show ?thesis .
qed

lemma numChunksOf_pred:
  assumes "1 \<le> ChunkSize cfg" "1 \<le> N"
  shows "numChunksOf cfg N = (N - 1) div ChunkSize cfg + 1"
proof -
  have e: "N + ChunkSize cfg - 1 = (N - 1) + ChunkSize cfg" by simp
  have nz: "ChunkSize cfg \<noteq> 0" using assms(1) by simp
  have "(N + ChunkSize cfg - 1) div ChunkSize cfg = (N - 1) div ChunkSize cfg + 1"
    unfolding e by (rule div_add_self2[OF nz])
  then show ?thesis by (simp add: numChunksOf_div[OF assms])
qed

lemma numChunksOf_ceiling:
  assumes "1 \<le> ChunkSize cfg" "1 \<le> N"
  shows "numChunksOf cfg N = \<lceil>of_int N / of_int (ChunkSize cfg) :: real\<rceil>"
proof -
  have C: "0 < (of_int (ChunkSize cfg) :: real)" using assms by simp
  have a: "of_int ((numChunksOf cfg N - 1) * ChunkSize cfg) < (of_int N :: real)"
    using numChunksOf_bounds(1)[OF assms] by (simp only: of_int_less_iff)
  have b: "(of_int N :: real) \<le> of_int (numChunksOf cfg N * ChunkSize cfg)"
    using numChunksOf_bounds(2)[OF assms] by (simp only: of_int_le_iff)
  have "of_int (numChunksOf cfg N) - 1 < (of_int N / of_int (ChunkSize cfg) :: real)"
    using a C by (simp add: pos_less_divide_eq)
  moreover have "(of_int N / of_int (ChunkSize cfg) :: real) \<le> of_int (numChunksOf cfg N)"
    using b C by (simp add: pos_divide_le_eq)
  ultimately show ?thesis by (intro ceiling_unique[symmetric]) simp_all
qed

lemma contiguous_le: "contiguous x ys y \<Longrightarrow> x \<le> y"
  by (induction ys arbitrary: x) force+

lemma concat_contiguous:
  "contiguous a rs b \<Longrightarrow> concat (map (\<lambda>(st, ed). [st..ed - 1]) rs) = [a..b - 1]"
proof (induction rs arbitrary: a)
  case Nil
  then show ?case by simp
next
  case (Cons r rs)
  obtain st ed where r: "r = (st, ed)" by (cases r)
  from Cons.prems r have h: "st = a" "a \<le> ed" "contiguous ed rs b" by auto
  have eb: "ed \<le> b" using contiguous_le[OF h(3)] .
  have "[a..b - 1] = [a..ed - 1] @ [ed..b - 1]"
  proof (cases "a = ed \<or> ed = b")
    case True
    then show ?thesis using h(2) eb by auto
  next
    case False
    then have "a \<le> ed" "ed \<le> b - 1" using h(2) eb by auto
    then show ?thesis by (rule upto_split1)
  qed
  then show ?case
    using Cons.IH[OF h(3)] by (simp add: r h(1))
qed

lemma chunkBounds_props:
  assumes "1 \<le> ChunkSize cfg" "1 \<le> N" "int i < numChunksOf cfg N"
  shows "fst (chunkBounds cfg N (int i)) = int i * ChunkSize cfg + 1"
    and "fst (chunkBounds cfg N (int i)) \<le> snd (chunkBounds cfg N (int i))"
    and "snd (chunkBounds cfg N (int i)) - fst (chunkBounds cfg N (int i)) \<le> ChunkSize cfg"
proof -
  show "fst (chunkBounds cfg N (int i)) = int i * ChunkSize cfg + 1"
    by (simp add: chunkBounds_def Let_def)
  have "int i \<le> numChunksOf cfg N - 1" using assms(3) by simp
  then have "int i * ChunkSize cfg \<le> (numChunksOf cfg N - 1) * ChunkSize cfg"
    using assms(1) by (intro mult_right_mono) simp_all
  with numChunksOf_bounds(1)[OF assms(1,2)] have "int i * ChunkSize cfg + 1 \<le> N" by linarith
  then show "fst (chunkBounds cfg N (int i)) \<le> snd (chunkBounds cfg N (int i))"
    using assms(1) by (simp add: chunkBounds_def Let_def)
  show "snd (chunkBounds cfg N (int i)) - fst (chunkBounds cfg N (int i)) \<le> ChunkSize cfg"
    by (simp add: chunkBounds_def Let_def)
qed

lemma addToLast_length: "length (addToLast xs c) = length xs"
  by (simp add: addToLast_def)

lemma addToLast_nth:
  "Suc i < length xs \<Longrightarrow> addToLast xs c ! i = Some (xs ! i)"
proof -
  assume a: "Suc i < length xs"
  then have "length xs - 1 \<noteq> i" "i < length xs" "xs \<noteq> []" by auto
  then show ?thesis by (simp add: addToLast_def)
qed

lemma addToLast_last:
  "xs \<noteq> [] \<Longrightarrow> addToLast xs c ! (length xs - 1) = c128_add (Some (last xs)) c"
  by (simp add: addToLast_def)

lemma sums_nth:
  "int i + 1 < N \<Longrightarrow> map (\<lambda>j. termSum s 1 (j + 1)) [1..N - 1] ! i = termSum s 1 (int i + 2)"
proof -
  assume a: "int i + 1 < N"
  then have "1 + int i \<le> N - 1" by simp
  then have "[1..N - 1] ! i = 1 + int i" by (rule nth_upto)
  moreover have "i < length [1..N - 1]" using a by simp
  ultimately show ?thesis by (simp add: algebra_simps)
qed

lemma sums_last:
  "2 \<le> N \<Longrightarrow> last (map (\<lambda>j. termSum s 1 (j + 1)) [1..N - 1]) = termSum s 1 N"
  using last_sums[of N s] by (auto simp: last_map split: if_splits)

lemma correction_regular:
  "s \<noteq> 1 \<Longrightarrow> correction N s = Some (cmplx_Pow N (1 - s) / (s - 1) + 0.5 * cmplx_Pow N (- s))"
  by (simp add: correction_def c128_div_def c128_add_def)

lemma correction_singular: "correction N 1 = None"
  by (simp add: correction_def c128_div_def c128_add_def)

text \<open>
  Claim C2 (the correction is applied once). The grand total is the plain sum of the
  terms \<open>1, \<dots>, N - 1\<close> plus the correction, the trajectory has \<open>N - 1\<close> elements,
  its last element is the plain sum plus the same correction, and every other element
  \<open>i\<close> is the plain cumulative sum of the terms \<open>1, \<dots>, i + 1\<close>. Away from \<open>s = 1\<close>
  the correction is \<open>N\<^sup>1\<^sup>-\<^sup>s / (s - 1) + 0.5 N\<^sup>-\<^sup>s\<close>.
\<close>

theorem correction_once:
  assumes "1 \<le> ChunkSize cfg" and "1 \<le> MinN cfg" and "MinN cfg \<le> MaxN cfg"
  shows "\<exists>total links. calculateSpiralPartialSums cfg s = Inr (total, links)
       \<and> total = c128_add (Some (termSum s 1 (termCount cfg s))) (correction (termCount cfg s) s)
       \<and> int (length links) = termCount cfg s - 1
       \<and> (\<forall>i. int i + 2 < termCount cfg s \<longrightarrow> links ! i = Some (termSum s 1 (int i + 2)))
       \<and> (2 \<le> termCount cfg s \<longrightarrow>
            links ! (length links - 1)
            = c128_add (Some (termSum s 1 (termCount cfg s))) (correction (termCount cfg s) s))
       \<and> (s \<noteq> 1 \<longrightarrow> correction (termCount cfg s) s
            = Some (cmplx_Pow (termCount cfg s) (1 - s) / (s - 1)
                    + 0.5 * cmplx_Pow (termCount cfg s) (- s)))"
proof -
  let ?N = "termCount cfg s"
  let ?plain = "map (\<lambda>j. termSum s 1 (j + 1)) [1..?N - 1]"
  let ?corr = "correction ?N s"
  have N: "1 \<le> ?N" using assms by (simp add: termCount_ge)
  have len: "int (length ?plain) = ?N - 1" using N by simp
  have a: "int (length (addToLast ?plain ?corr)) = ?N - 1"
    unfolding addToLast_length by (rule len)
  have b: "addToLast ?plain ?corr ! i = Some (termSum s 1 (int i + 2))" if "int i + 2 < ?N" for i
  proof -
    have "Suc i < length ?plain" using that len by simp
    then have "addToLast ?plain ?corr ! i = Some (?plain ! i)" by (rule addToLast_nth)
    also have "?plain ! i = termSum s 1 (int i + 2)" using that by (intro sums_nth) simp
    finally show ?thesis .
  qed
  have c: "addToLast ?plain ?corr ! (length (addToLast ?plain ?corr) - 1)
         = c128_add (Some (termSum s 1 ?N)) ?corr" if "2 \<le> ?N"
  proof -
    have ne: "?plain \<noteq> []" using that by simp
    show ?thesis
      unfolding addToLast_length addToLast_last[OF ne] sums_last[OF that] ..
  qed
  from spiral_eq[OF assms, of s] a b c correction_regular[of s ?N]
  show ?thesis by blast
qed

theorem correction_once_witness:
  "1 \<le> ChunkSize smallConfig \<and> 1 \<le> MinN smallConfig \<and> MinN smallConfig \<le> MaxN smallConfig
   \<and> calculateSpiralPartialSums smallConfig 2
     = Inr (Some (cmplx_Pow 1 (- 2) + cmplx_Pow 2 (- 2) + (cmplx_Pow 3 (- 1) + 0.5 * cmplx_Pow 3 (- 2))),
            [Some (cmplx_Pow 1 (- 2)),
             Some (cmplx_Pow 1 (- 2) + cmplx_Pow 2 (- 2) + (cmplx_Pow 3 (- 1) + 0.5 * cmplx_Pow 3 (- 2)))])"
proof -
  have h: "1 \<le> ChunkSize smallConfig" "1 \<le> MinN smallConfig" "MinN smallConfig \<le> MaxN smallConfig"
    by (simp_all add: smallConfig_def)
  have t: "termCount smallConfig 2 = 3"
    by (simp add: termCount_def smallConfig_def go_int_def Let_def)
  have s3: "termSum 2 1 3 = cmplx_Pow 1 (- 2) + cmplx_Pow 2 (- 2)"
    using termSum_last[of 1 2 2] termSum_last[of 1 1 2] by (simp add: termSum_empty)
  have s2: "termSum 2 1 2 = cmplx_Pow 1 (- 2)"
    using termSum_last[of 1 1 2] by (simp add: termSum_empty)
  have co: "correction 3 2 = Some (cmplx_Pow 3 (- 1) + 0.5 * cmplx_Pow 3 (- 2))"
    by (simp add: correction_regular)
  from correction_once[OF h, of 2] obtain total links where
    r: "calculateSpiralPartialSums smallConfig 2 = Inr (total, links)"
    and tot: "total = c128_add (Some (termSum 2 1 3)) (correction 3 2)"
    and len: "int (length links) = 3 - 1"
    and el: "\<forall>i. int i + 2 < 3 \<longrightarrow> links ! i = Some (termSum 2 1 (int i + 2))"
    and la: "links ! (length links - 1) = c128_add (Some (termSum 2 1 3)) (correction 3 2)"
    unfolding t by auto
  from len have l2: "length links = 2" by simp
  from el[rule_format, of 0] have e0: "links ! 0 = Some (termSum 2 1 2)" by simp
  from la l2 have e1: "links ! 1 = c128_add (Some (termSum 2 1 3)) (correction 3 2)" by simp
  have "links = [links ! 0, links ! 1]"
    using l2 by (intro nth_equalityI) (auto simp: less_Suc_eq numeral_2_eq_2)
  then have "links = [Some (cmplx_Pow 1 (- 2)),
             Some (cmplx_Pow 1 (- 2) + cmplx_Pow 2 (- 2) + (cmplx_Pow 3 (- 1) + 0.5 * cmplx_Pow 3 (- 2)))]"
    unfolding e0 e1 s2 s3 co by (simp add: c128_add_def)
  moreover have "total = Some (cmplx_Pow 1 (- 2) + cmplx_Pow 2 (- 2) + (cmplx_Pow 3 (- 1) + 0.5 * cmplx_Pow 3 (- 2)))"
    unfolding tot s3 co by (simp add: c128_add_def)
  ultimately show ?thesis using r h by simp
qed

text \<open>
  Claim C3 (chunk partition), as amended. The engine cuts \<open>[1, N)\<close> into
  \<open>\<lceil>N / C\<rceil>\<close> chunks, which is \<open>\<lceil>(N - 1) / C\<rceil>\<close> plus one empty trailing chunk exactly
  when \<open>C\<close> divides \<open>N - 1\<close>. Chunk \<open>i\<close> starts at \<open>i C + 1\<close>, each chunk ends where the next
  one starts, each has at most \<open>C\<close> indices (exactly \<open>C\<close> when it is not the last), and
  the chunks laid end to end are the indices \<open>1, \<dots>, N - 1\<close>: no overlap and no gap.
\<close>

theorem chunk_partition:
  assumes "1 \<le> ChunkSize cfg" and "1 \<le> N"
  shows "int (length (chunkList cfg N)) = \<lceil>of_int N / of_int (ChunkSize cfg) :: real\<rceil>
       \<and> int (length (chunkList cfg N))
           = \<lceil>of_int (N - 1) / of_int (ChunkSize cfg) :: real\<rceil>
             + (if ChunkSize cfg dvd N - 1 then 1 else 0)
       \<and> concat (map (\<lambda>(st, ed). [st..ed - 1]) (chunkList cfg N)) = [1..N - 1]
       \<and> (\<forall>i < length (chunkList cfg N).
             fst (chunkList cfg N ! i) = int i * ChunkSize cfg + 1
           \<and> fst (chunkList cfg N ! i) \<le> snd (chunkList cfg N ! i)
           \<and> snd (chunkList cfg N ! i) - fst (chunkList cfg N ! i) \<le> ChunkSize cfg
           \<and> (Suc i < length (chunkList cfg N) \<longrightarrow>
                 snd (chunkList cfg N ! i) = fst (chunkList cfg N ! Suc i)
               \<and> snd (chunkList cfg N ! i) - fst (chunkList cfg N ! i) = ChunkSize cfg))"
proof -
  have n1: "1 \<le> numChunksOf cfg N" by (rule numChunksOf_bounds(3)[OF assms])
  have len: "int (length (chunkList cfg N)) = numChunksOf cfg N"
    using n1 by (simp add: chunkList_def)
  have C: "0 < ChunkSize cfg" using assms(1) by simp
  have c1: "int (length (chunkList cfg N)) = \<lceil>of_int N / of_int (ChunkSize cfg) :: real\<rceil>"
    unfolding len by (rule numChunksOf_ceiling[OF assms])
  have c2: "int (length (chunkList cfg N))
           = \<lceil>of_int (N - 1) / of_int (ChunkSize cfg) :: real\<rceil>
             + (if ChunkSize cfg dvd N - 1 then 1 else 0)"
    unfolding len numChunksOf_pred[OF assms] ceil_div_pos[OF C]
    by (simp add: dvd_eq_mod_eq_0)
  have c3: "concat (map (\<lambda>(st, ed). [st..ed - 1]) (chunkList cfg N)) = [1..N - 1]"
    by (rule concat_contiguous[OF contiguous_chunkList[OF assms]])
  have c4: "fst (chunkList cfg N ! i) = int i * ChunkSize cfg + 1
           \<and> fst (chunkList cfg N ! i) \<le> snd (chunkList cfg N ! i)
           \<and> snd (chunkList cfg N ! i) - fst (chunkList cfg N ! i) \<le> ChunkSize cfg
           \<and> (Suc i < length (chunkList cfg N) \<longrightarrow>
                 snd (chunkList cfg N ! i) = fst (chunkList cfg N ! Suc i)
               \<and> snd (chunkList cfg N ! i) - fst (chunkList cfg N ! i) = ChunkSize cfg)"
    if i: "i < length (chunkList cfg N)" for i
  proof -
    have il: "int i < numChunksOf cfg N" using i len by simp
    have nth: "chunkList cfg N ! i = chunkBounds cfg N (int i)"
      using i by (simp add: chunkList_def)
    have "snd (chunkList cfg N ! i) = fst (chunkList cfg N ! Suc i)
        \<and> snd (chunkList cfg N ! i) - fst (chunkList cfg N ! i) = ChunkSize cfg"
      if s: "Suc i < length (chunkList cfg N)"
    proof -
      have inner: "int i + 1 < numChunksOf cfg N" using s len by simp
      have nth': "chunkList cfg N ! Suc i = chunkBounds cfg N (int (Suc i))"
        using s by (simp add: chunkList_def)
      have "int (Suc i) < numChunksOf cfg N" using inner by simp
      from chunkBounds_props(1)[OF assms this] chunkBounds_inner[OF assms inner]
      show ?thesis unfolding nth nth' by (simp add: algebra_simps)
    qed
    then show ?thesis
      using chunkBounds_props[OF assms il] unfolding nth by blast
  qed
  from c1 c2 c3 c4 show ?thesis by blast
qed

theorem chunk_partition_witness:
  "1 \<le> ChunkSize smallConfig \<and> (1::int) \<le> 5
   \<and> int (length (chunkList smallConfig 5)) = \<lceil>of_int 5 / of_int (ChunkSize smallConfig) :: real\<rceil>
   \<and> concat (map (\<lambda>(st, ed). [st..ed - 1]) (chunkList smallConfig 5)) = [1..5 - 1]"
proof -
  have h1: "1 \<le> ChunkSize smallConfig" by (simp add: smallConfig_def)
  have h2: "(1::int) \<le> 5" by simp
  from chunk_partition[OF h1 h2] h1 h2 show ?thesis by blast
qed

text \<open>
  The count of the claim as stated fails: with the default chunk width \<open>100000\<close> and the
  exponent \<open>s = 100001\<close> the engine makes two chunks, the second one empty, where
  \<open>\<lceil>(N - 1) / C\<rceil> = 1\<close>.
\<close>

theorem chunk_count_counterexample:
  "termCount defaultConfig 100001 = 100001
   \<and> chunkList defaultConfig (termCount defaultConfig 100001) = [(1, 100001), (100001, 100001)]
   \<and> \<lceil>of_int (termCount defaultConfig 100001 - 1) / of_int (ChunkSize defaultConfig) :: real\<rceil> = 1"
proof -
  have t: "termCount defaultConfig 100001 = 100001"
    by (simp add: termCount_def defaultConfig_def go_int_def Let_def)
  have n: "numChunksOf defaultConfig 100001 = 2"
    by (simp add: numChunksOf_def defaultConfig_def go_quot_def)
  have u: "[0..<nat 2] = [0, Suc 0]" by (simp add: upt_rec)
  have c: "chunkList defaultConfig 100001 = [(1, 100001), (100001, 100001)]"
    unfolding chunkList_def n u by (simp add: chunkBounds_def defaultConfig_def Let_def)
  show ?thesis unfolding t c by (simp add: defaultConfig_def)
qed

text \<open>
  Claim C4 (singular exponent), as amended. At the exponent \<open>s = 1\<close> the engine reports
  no error: the call returns normally, with a trajectory of \<open>N - 1\<close> elements, a
  non-finite grand total and a non-finite last trajectory element.
\<close>

theorem singular_exponent_no_error:
  assumes "1 \<le> ChunkSize cfg" and "1 \<le> MinN cfg" and "MinN cfg \<le> MaxN cfg"
  shows "\<exists>total links. calculateSpiralPartialSums cfg 1 = Inr (total, links)
       \<and> total = None
       \<and> int (length links) = termCount cfg 1 - 1
       \<and> (2 \<le> termCount cfg 1 \<longrightarrow> links ! (length links - 1) = None)"
proof -
  let ?N = "termCount cfg 1"
  let ?plain = "map (\<lambda>j. termSum 1 1 (j + 1)) [1..?N - 1]"
  have N: "1 \<le> ?N" using assms by (simp add: termCount_ge)
  have a: "c128_add (Some z) None = None" for z
    by (simp add: c128_add_def)
  have b: "addToLast ?plain None ! (length (addToLast ?plain None) - 1) = None" if "2 \<le> ?N"
  proof -
    have ne: "?plain \<noteq> []" using that by simp
    show ?thesis unfolding addToLast_length addToLast_last[OF ne] by (rule a)
  qed
  have l: "int (length (addToLast ?plain None)) = ?N - 1"
    unfolding addToLast_length using N by simp
  show ?thesis
  proof (intro exI conjI)
    show "calculateSpiralPartialSums cfg 1
        = Inr (c128_add (Some (termSum 1 1 ?N)) None, addToLast ?plain None)"
      using spiral_eq[OF assms, of 1] by (simp only: correction_singular)
    show "c128_add (Some (termSum 1 1 ?N)) None = None" by (rule a)
    show "int (length (addToLast ?plain None)) = ?N - 1" by (rule l)
    show "2 \<le> ?N \<longrightarrow> addToLast ?plain None ! (length (addToLast ?plain None) - 1) = None"
      using b by blast
  qed
qed

theorem singular_exponent_no_error_witness:
  "1 \<le> ChunkSize defaultConfig \<and> 1 \<le> MinN defaultConfig \<and> MinN defaultConfig \<le> MaxN defaultConfig
   \<and> (\<exists>links. calculateSpiralPartialSums defaultConfig 1 = Inr (None, links)
                \<and> int (length links) = 99)"
proof -
  have h: "1 \<le> ChunkSize defaultConfig" "1 \<le> MinN defaultConfig" "MinN defaultConfig \<le> MaxN defaultConfig"
    by (simp_all add: defaultConfig_def)
  have t: "termCount defaultConfig 1 = 100"
    by (simp add: termCount_def defaultConfig_def go_int_def Let_def)
  from singular_exponent_no_error[OF h] h show ?thesis unfolding t by auto
qed

text \<open>
  The claim as stated fails at \<open>s = 1\<close> with the default configuration: the call returns
  normally, with a non-finite total and a non-finite last trajectory element.
\<close>

theorem no_domain_error_counterexample:
  "\<not> isl (calculateSpiralPartialSums defaultConfig 1)
   \<and> fst (projr (calculateSpiralPartialSums defaultConfig 1)) = None
   \<and> last (snd (projr (calculateSpiralPartialSums defaultConfig 1))) = None"
proof -
  have h: "1 \<le> ChunkSize defaultConfig" "1 \<le> MinN defaultConfig" "MinN defaultConfig \<le> MaxN defaultConfig"
    by (simp_all add: defaultConfig_def)
  have t: "termCount defaultConfig 1 = 100"
    by (simp add: termCount_def defaultConfig_def go_int_def Let_def)
  have ne: "map (\<lambda>j. termSum 1 1 (j + 1)) [1..100 - 1] \<noteq> []" by simp
  have "last (addToLast xs None) = None" if "xs \<noteq> []" for xs :: "complex list"
    using that by (simp add: addToLast_def last_list_update c128_add_def)
  from this[OF ne] show ?thesis
    unfolding spiral_eq[OF h] t correction_singular by (simp add: c128_add_def)
qed

section \<open>Properties of the downsampler\<close>

lemma length_interpolate: "length (interpolate p q n) = nat n"
  by (simp add: interpolate_def)

lemma go_int_of_int: "go_int (of_int n) = n"
  by (simp add: go_int_def)

lemma math_Round_of_int: "math_Round (of_int n) = of_int n"
  by (simp add: math_Round_def)

lemma sqrt_square_num: "0 \<le> r \<Longrightarrow> r * r = x \<Longrightarrow> sqrt x = r"
  using real_sqrt_abs2[of r] by auto

lemma boundsLoop_Cons:
  "boundsLoop \<lparr>minX = a, maxX = b, minY = c, maxY = d\<rparr> (link # rest)
   = boundsLoop \<lparr>minX = min a (Re link), maxX = max b (Re link),
                  minY = min c (Im link), maxY = max d (Im link)\<rparr> rest"
proof -
  have "(if Re link < a then \<lparr>minX = a, maxX = b, minY = c, maxY = d\<rparr>\<lparr>minX := Re link\<rparr>
         else \<lparr>minX = a, maxX = b, minY = c, maxY = d\<rparr>)
        = \<lparr>minX = min a (Re link), maxX = b, minY = c, maxY = d\<rparr>"
    by (simp add: min_def)
  moreover have "(if Re link > maxX \<lparr>minX = m, maxX = b, minY = c, maxY = d\<rparr>
          then \<lparr>minX = m, maxX = b, minY = c, maxY = d\<rparr>\<lparr>maxX := Re link\<rparr>
          else \<lparr>minX = m, maxX = b, minY = c, maxY = d\<rparr>)
        = \<lparr>minX = m, maxX = max b (Re link), minY = c, maxY = d\<rparr>" for m
    by (simp add: max_def)
  moreover have "(if Im link < minY \<lparr>minX = m, maxX = n, minY = c, maxY = d\<rparr>
          then \<lparr>minX = m, maxX = n, minY = c, maxY = d\<rparr>\<lparr>minY := Im link\<rparr>
          else \<lparr>minX = m, maxX = n, minY = c, maxY = d\<rparr>)
        = \<lparr>minX = m, maxX = n, minY = min c (Im link), maxY = d\<rparr>" for m n
    by (simp add: min_def)
  moreover have "(if Im link > maxY \<lparr>minX = m, maxX = n, minY = k, maxY = d\<rparr>
          then \<lparr>minX = m, maxX = n, minY = k, maxY = d\<rparr>\<lparr>maxY := Im link\<rparr>
          else \<lparr>minX = m, maxX = n, minY = k, maxY = d\<rparr>)
        = \<lparr>minX = m, maxX = n, minY = k, maxY = max d (Im link)\<rparr>" for m n k
    by (simp add: max_def)
  ultimately show ?thesis
    by (simp only: boundsLoop.simps Let_def bounds.simps)
qed

lemma viewBounds_two:
  "viewBounds [Complex 1 1, Complex 100 100] = \<lparr>minX = 1, maxX = 100, minY = 1, maxY = 100\<rparr>"
  by (simp add: viewBounds_def boundsLoop_Cons boundsLoop.simps(1))

lemma pix_two:
  "pixelForLink \<lparr>minX = 1, maxX = 100, minY = 1, maxY = 100\<rparr> 100 (Complex 1 1) = (0, 0)"
  "pixelForLink \<lparr>minX = 1, maxX = 100, minY = 1, maxY = 100\<rparr> 100 (Complex 100 100) = (100, 100)"
  by (simp_all add: pixelForLink_def axisPixel_def go_int_def math_Round_def)

lemma half_min: "min (1 / 2) (3.5::real) = 1 / 2" by simp

lemma steps_half: "interpSteps (1 / 2) (sqrt 20000) = 100"
proof -
  have "sqrt 20000 / sqrt 2 = sqrt (20000 / 2)" by (simp only: real_sqrt_divide)
  also have "\<dots> = 100" by (rule sqrt_square_num) simp_all
  finally have "sqrt 20000 / sqrt 2 = 100" .
  then show ?thesis
    unfolding interpSteps_def half_min by (simp add: powr_half_sqrt Let_def go_int_def)
qed

lemma ith_half: "interpolationThreshold (1 / 2) < sqrt 20000"
proof -
  have "sqrt (5 / 2) \<le> 2" by (rule real_le_lsqrt) simp_all
  moreover have "(100::real) \<le> sqrt 20000" by (rule real_le_rsqrt) simp
  ultimately show ?thesis
    by (simp add: interpolationThreshold_def Let_def powr_half_sqrt)
qed

lemma mrs_half: "maxRelativeSpread (1 / 2) < 1"
proof -
  have "sqrt 5 \<le> 3" by (rule real_le_lsqrt) simp_all
  then show ?thesis by (simp add: maxRelativeSpread_def Let_def powr_half_sqrt)
qed

lemma serial_two_points:
  "downsampleComplexSerial [Complex 1 1, Complex 100 100] 100 (1 / 2) dbg
   = Complex 1 1 # interpolate (Complex 1 1) (Complex 100 100) 100 @ [Complex 100 100]"
proof -
  have rs: "relativeSpread \<lparr>minX = 1, maxX = 100, minY = 1, maxY = 100\<rparr> = 1"
    by (simp add: relativeSpread_def Let_def)
  have gap: "pixelGapOf 100 100 = sqrt 20000" by (simp add: pixelGapOf_def)
  have pst: "pixelSpreadThreshold (1 / 2) = 2" by (simp add: pixelSpreadThreshold_def)
  show ?thesis
    using mrs_half ith_half
    by (simp add: downsampleComplexSerial_def viewBounds_two rs pix_two Let_def newGroup_def
        pst gap steps_half flushGroup_def groupLoop.simps)
qed

lemma floor_sqrt: "n * n \<le> x \<Longrightarrow> x < (n + 1) * (n + 1) \<Longrightarrow> 0 \<le> n \<Longrightarrow> \<lfloor>sqrt x\<rfloor> = n" for n :: int and x :: real
proof -
  assume a: "n * n \<le> x" "x < (n + 1) * (n + 1)" "0 \<le> n"
  have "(of_int n)\<^sup>2 \<le> x" using a(1) by (simp add: power2_eq_square)
  then have l: "of_int n \<le> sqrt x" by (rule real_le_rsqrt)
  have "x < (of_int (n + 1))\<^sup>2" using a(2) by (simp add: power2_eq_square)
  moreover have "0 \<le> (of_int (n + 1) :: real)" using a(3) by simp
  ultimately have u: "sqrt x < of_int (n + 1)" by (intro real_less_lsqrt) simp_all
  from l u show ?thesis by (intro floor_unique) simp_all
qed

lemma steps_zero: "interpSteps 0 (sqrt 2097152) = 1448"
proof -
  have "\<lfloor>sqrt 2097152\<rfloor> = 1448" by (rule floor_sqrt) simp_all
  then show ?thesis by (simp add: interpSteps_def Let_def go_int_def)
qed

lemma ith_zero: "interpolationThreshold 0 < sqrt 2097152"
proof -
  have "(2::real) \<le> sqrt 2097152" by (rule real_le_rsqrt) simp
  then show ?thesis by (simp add: interpolationThreshold_def Let_def)
qed

lemma groupLoop_join:
  assumes "pixelForLink b sz link = (px, py)"
    and "\<bar>of_int (px - pixelX g)\<bar> \<le> pixelSpreadThreshold a"
    and "\<bar>of_int (py - pixelY g)\<bar> \<le> pixelSpreadThreshold a"
  shows "groupLoop b sz a g out (link # rest)
       = groupLoop b sz a (g\<lparr>sumv := sumv g + link, count := count g + 1, lastLink := link\<rparr>) out rest"
  using assms by (simp add: groupLoop.simps)

lemma pixelSpreadThreshold_pos: "0 < pixelSpreadThreshold a"
  by (simp add: pixelSpreadThreshold_def)

lemma groupLoop_flush:
  assumes "pixelForLink b sz link = (px, py)"
    and "pixelSpreadThreshold a < \<bar>of_int (px - pixelX g)\<bar>
         \<or> pixelSpreadThreshold a < \<bar>of_int (py - pixelY g)\<bar>"
  shows "groupLoop b sz a g out (link # rest)
       = groupLoop b sz a (newGroup link px py)
           (out @ [flushGroup g]
            @ (if pixelGapOf (px - pixelX g) (py - pixelY g) > interpolationThreshold a
               then interpolate (lastLink g) link
                      (interpSteps a (pixelGapOf (px - pixelX g) (py - pixelY g)))
               else []))
           rest"
proof -
  have c: "((px = pixelX g \<and> py = pixelY g)
            \<or> (\<bar>of_int (px - pixelX g)\<bar> \<le> pixelSpreadThreshold a
               \<and> \<bar>of_int (py - pixelY g)\<bar> \<le> pixelSpreadThreshold a)) = False"
    using assms(2) pixelSpreadThreshold_pos[of a] by auto
  show ?thesis
  proof (cases "pixelGapOf (px - pixelX g) (py - pixelY g) > interpolationThreshold a")
    case True
    then show ?thesis
      by (simp only: groupLoop.simps assms(1) prod.case Let_def c if_False if_True append_assoc)
  next
    case False
    then show ?thesis
      by (simp only: groupLoop.simps assms(1) prod.case Let_def c if_False append_Nil2)
  qed
qed

lemma newGroup_sel:
  "sumv (newGroup l px py) = l" "count (newGroup l px py) = 1"
  "pixelX (newGroup l px py) = px" "pixelY (newGroup l px py) = py"
  "lastLink (newGroup l px py) = l"
  by (simp_all add: newGroup_def)

lemma flush_newGroup: "flushGroup (newGroup l px py) = l"
  by (simp add: flushGroup_def newGroup_def)

lemma serial_nonempty:
  assumes "links \<noteq> []"
  shows "downsampleComplexSerial links outputSize a dbg
       = (if relativeSpread (viewBounds links) \<le> maxRelativeSpread a then [averageOf links]
          else (let g0 = newGroup (links ! 0) (fst (pixelForLink (viewBounds links) outputSize (links ! 0)))
                                 (snd (pixelForLink (viewBounds links) outputSize (links ! 0)));
                    r = groupLoop (viewBounds links) outputSize a g0 [] (drop 1 links)
                in snd r @ [flushGroup (fst r)]))"
  using assms by (simp add: downsampleComplexSerial_def Let_def split: prod.splits)

lemma serial_three_zero:
  "length (downsampleComplexSerial threePoints 2048 0 dbg) = 2899"
proof -
  define P1 where "P1 = Complex 1 1"
  define P2 where "P2 = Complex 1.0001 1.0001"
  define P3 where "P3 = Complex 1.0002 1.0002"
  define B where "B = viewBounds threePoints"
  have tp: "threePoints = [P1, P2, P3]" by (simp add: threePoints_def P1_def P2_def P3_def)
  have Bv: "B = \<lparr>minX = 1, maxX = 1.0002, minY = 1, maxY = 1.0002\<rparr>"
    by (simp add: B_def viewBounds_def threePoints_def boundsLoop_Cons boundsLoop.simps(1))
  have rs: "relativeSpread B = 0.02" by (simp add: Bv relativeSpread_def Let_def)
  have mrs: "maxRelativeSpread 0 = 0.0001" by (simp add: maxRelativeSpread_def Let_def)
  have x1: "pixelForLink B 2048 P1 = (0, 0)"
    by (simp add: Bv P1_def pixelForLink_def axisPixel_def go_int_def math_Round_def)
  have x2: "pixelForLink B 2048 P2 = (1024, 1024)"
    by (simp add: Bv P2_def pixelForLink_def axisPixel_def go_int_def math_Round_def)
  have x3: "pixelForLink B 2048 P3 = (2048, 2048)"
    by (simp add: Bv P3_def pixelForLink_def axisPixel_def go_int_def math_Round_def)
  have pst: "pixelSpreadThreshold 0 = 1" by (simp add: pixelSpreadThreshold_def)
  have gap: "pixelGapOf 1024 1024 = sqrt 2097152" by (simp add: pixelGapOf_def)
  have s1: "groupLoop B 2048 0 (newGroup P1 0 0) [] [P2, P3]
          = groupLoop B 2048 0 (newGroup P2 1024 1024)
              ([] @ [P1] @ interpolate P1 P2 1448) [P3]"
    using ith_zero
    by (subst groupLoop_flush[OF x2]) (simp_all add: newGroup_sel pst gap steps_zero flush_newGroup)
  have s2: "groupLoop B 2048 0 (newGroup P2 1024 1024) out [P3]
          = groupLoop B 2048 0 (newGroup P3 2048 2048)
              (out @ [P2] @ interpolate P2 P3 1448) []" for out
    using ith_zero
    by (subst groupLoop_flush[OF x3]) (simp_all add: newGroup_sel pst gap steps_zero flush_newGroup)
  have "downsampleComplexSerial threePoints 2048 0 dbg
      = (([] @ [P1] @ interpolate P1 P2 1448) @ [P2] @ interpolate P2 P3 1448) @ [P3]"
    unfolding serial_nonempty[of threePoints, unfolded tp, simplified, folded tp] B_def[symmetric]
    using rs mrs by (simp add: tp x1 s1 s2 flush_newGroup Let_def groupLoop.simps(1))
  then show ?thesis by (simp add: length_interpolate)
qed

lemma average_three: "averageOf threePoints = Complex 1.0001 1.0001"
  by (simp add: averageOf_def threePoints_def complex_eq_iff)

lemma serial_three_four:
  "downsampleComplexSerial threePoints 2048 4 dbg = [averageOf threePoints]"
proof -
  define B where "B = viewBounds threePoints"
  have Bv: "B = \<lparr>minX = 1, maxX = 1.0002, minY = 1, maxY = 1.0002\<rparr>"
    by (simp add: B_def viewBounds_def threePoints_def boundsLoop_Cons boundsLoop.simps(1))
  have rs: "relativeSpread B = 0.02" by (simp add: Bv relativeSpread_def Let_def)
  have mrs: "maxRelativeSpread 4 = 0.05" by (simp add: maxRelativeSpread_def Let_def)
  have ne: "threePoints \<noteq> []" by (simp add: threePoints_def)
  show ?thesis
    unfolding serial_nonempty[OF ne] B_def[symmetric] using rs mrs by simp
qed

lemma go_int_scale:
  assumes "0 \<le> n" and "f \<le> 1"
  shows "go_int (of_int n * f) \<le> n"
proof (cases "0 \<le> of_int n * f")
  case True
  have "of_int n * f \<le> of_int n" using assms by (simp add: mult_left_le)
  then have "\<lfloor>of_int n * f\<rfloor> \<le> \<lfloor>of_int n :: real\<rfloor>" by (rule floor_mono)
  then show ?thesis using True by (simp add: go_int_def)
next
  case False
  then have "\<lceil>of_int n * f\<rceil> \<le> 0" by (simp add: ceiling_le_zero)
  then have "\<lceil>of_int n * f\<rceil> \<le> n" using assms(1) by linarith
  then show ?thesis using False by (simp add: go_int_def)
qed

lemma interpSteps_le:
  assumes "0 \<le> gap"
  shows "interpSteps a gap \<le> \<lfloor>gap / 2 powr (min a 3.5)\<rfloor>"
proof -
  define x where "x = gap / 2 powr (min a 3.5)"
  have x: "0 \<le> x" using assms by (simp add: x_def)
  then have g: "go_int x = \<lfloor>x\<rfloor>" by (simp add: go_int_def)
  have f0: "0 \<le> \<lfloor>x\<rfloor>" using x by simp
  have "interpSteps a gap
      = (if a > 3.5 then go_int (of_int \<lfloor>x\<rfloor> * (1 - 0.5 * ((a - 3.5) / 0.5))) else \<lfloor>x\<rfloor>)"
    unfolding interpSteps_def Let_def x_def[symmetric] g ..
  also have "\<dots> \<le> \<lfloor>x\<rfloor>"
  proof (cases "a > 3.5")
    case True
    then have "1 - 0.5 * ((a - 3.5) / 0.5) \<le> 1" by simp
    from go_int_scale[OF f0 this] True show ?thesis by simp
  next
    case False
    then show ?thesis by simp
  qed
  finally show ?thesis unfolding x_def .
qed

text \<open>
  Claim C5 (collapse to one point), as amended. For the input \<open>(1,1)\<close>,
  \<open>(1.0001,1.0001)\<close>, \<open>(1.0002,1.0002)\<close> at output resolution 2048 the downsampler
  returns exactly one point, the arithmetic mean \<open>(1.0001,1.0001)\<close> of the inputs, at
  aggressiveness 4.0, where the relative spread 0.02 is within the bound 0.05. At
  aggressiveness 0.0 the bound is 0.0001, the input is not collapsed, and the output has
  2899 points: three group averages and twice 1448 interpolated points.
\<close>

theorem collapse_needs_high_aggressiveness:
  "downsampleComplex numWorkers threePoints 2048 4 debug = [averageOf threePoints]
   \<and> averageOf threePoints = Complex 1.0001 1.0001
   \<and> length (downsampleComplex numWorkers threePoints 2048 0 debug) = 2899"
proof -
  have s: "length threePoints < 10000" by (simp add: threePoints_def)
  show ?thesis
    using s by (simp add: downsampleComplex_def serial_three_four serial_three_zero average_three)
qed

text \<open>The claim as stated fails: at aggressiveness 0.0 the output is not one point.\<close>

theorem collapse_counterexample:
  "length (downsampleComplex 8 [Complex 1 1, Complex 1.0001 1.0001, Complex 1.0002 1.0002] 2048 0 True) \<noteq> 1"
proof -
  have "length threePoints < 10000" by (simp add: threePoints_def)
  then have "length (downsampleComplex 8 threePoints 2048 0 True) = 2899"
    by (simp add: downsampleComplex_def serial_three_zero)
  then show ?thesis unfolding threePoints_def by simp
qed

text \<open>
  Claim C6 (boundary interpolation), as amended. For the input \<open>(1,1)\<close>, \<open>(100,100)\<close>
  at output resolution 100 and aggressiveness 0.5 the downsampler returns exactly 102
  points (the first group, \<open>\<lfloor>\<surd>20000 / \<surd>2\<rfloor> = 100\<close> interpolated points, the last group);
  the first point is \<open>(1,1)\<close> and the last is \<open>(100,100)\<close>.
\<close>

theorem boundary_interpolation_count:
  "length (downsampleComplex numWorkers twoPoints 100 (1 / 2) debug) = 102
   \<and> hd (downsampleComplex numWorkers twoPoints 100 (1 / 2) debug) = Complex 1 1
   \<and> last (downsampleComplex numWorkers twoPoints 100 (1 / 2) debug) = Complex 100 100"
  by (simp add: downsampleComplex_def twoPoints_def serial_two_points length_interpolate)

text \<open>The claim as stated fails: the output does not have 142 points.\<close>

theorem boundary_interpolation_counterexample:
  "length (downsampleComplex 8 [Complex 1 1, Complex 100 100] 100 (1 / 2) False) \<noteq> 142"
  by (simp add: downsampleComplex_def serial_two_points length_interpolate)

text \<open>
  Claim C7 (delegation below the size threshold). On an input of fewer than 10000 points
  the parallel downsampler returns exactly what the serial downsampler returns, for every
  output resolution, aggressiveness, debug flag and number of workers.
\<close>

theorem small_input_delegates:
  "length links < 10000 \<Longrightarrow>
   downsampleComplex numWorkers links outputSize aggressiveness debug
   = downsampleComplexSerial links outputSize aggressiveness debug"
  by (simp add: downsampleComplex_def)

theorem small_input_delegates_witness:
  "length twoPoints < 10000
   \<and> downsampleComplex 8 twoPoints 100 (1 / 2) True = downsampleComplexSerial twoPoints 100 (1 / 2) True"
proof -
  have h: "length twoPoints < 10000" by (simp add: twoPoints_def)
  from small_input_delegates[OF h] h show ?thesis by simp
qed

text \<open>
  Claim C10 (the output can be longer than the input). On the two points \<open>(1,1)\<close>,
  \<open>(100,100)\<close> at resolution 100 and aggressiveness 0.5 the serial downsampler returns
  more points than it was given. The points added after a flushed group are the
  \<^const>\<open>interpSteps\<close> interpolated ones, at most \<open>\<lfloor>gap / 2\<^bsup>min(a, 3.5)\<^esup>\<rfloor>\<close> of them.
\<close>

theorem output_can_grow:
  "length twoPoints < length (downsampleComplexSerial twoPoints 100 (1 / 2) debug)
   \<and> (\<forall>a gap. 0 \<le> gap \<longrightarrow> interpSteps a gap \<le> \<lfloor>gap / 2 powr (min a 3.5)\<rfloor>)
   \<and> (\<forall>p q n. length (interpolate p q n) = nat n)"
  using interpSteps_le
  by (simp add: twoPoints_def serial_two_points length_interpolate)

theorem output_can_grow_witness:
  "(0::real) \<le> 1000 \<and> interpSteps 4 1000 \<le> \<lfloor>(1000::real) / 2 powr (min 4 3.5)\<rfloor>"
proof -
  from output_can_grow[of False]
  have "\<forall>a gap. 0 \<le> gap \<longrightarrow> interpSteps a gap \<le> \<lfloor>gap / 2 powr (min a 3.5)\<rfloor>" by blast
  then have "(0::real) \<le> 1000 \<longrightarrow> interpSteps 4 1000 \<le> \<lfloor>(1000::real) / 2 powr (min 4 3.5)\<rfloor>"
    by blast
  then show ?thesis by simp
qed

lemma groupLoop_run:
  assumes "\<forall>l \<in> set ls. \<bar>of_int (fst (pixelForLink b sz l) - pixelX g)\<bar> \<le> pixelSpreadThreshold a
                        \<and> \<bar>of_int (snd (pixelForLink b sz l) - pixelY g)\<bar> \<le> pixelSpreadThreshold a"
  shows "groupLoop b sz a g out (ls @ rest)
       = groupLoop b sz a
           (g\<lparr>sumv := sumv g + sum_list ls, count := count g + int (length ls),
               lastLink := (if ls = [] then lastLink g else last ls)\<rparr>) out rest"
  using assms
proof (induction ls arbitrary: g)
  case Nil
  then show ?case by simp
next
  case (Cons l ls)
  obtain px py where p: "pixelForLink b sz l = (px, py)" by (cases "pixelForLink b sz l")
  let ?g = "g\<lparr>sumv := sumv g + l, count := count g + 1, lastLink := l\<rparr>"
  have j: "\<bar>of_int (px - pixelX g)\<bar> \<le> pixelSpreadThreshold a"
          "\<bar>of_int (py - pixelY g)\<bar> \<le> pixelSpreadThreshold a"
    using Cons.prems p by auto
  have st: "groupLoop b sz a g out ((l # ls) @ rest) = groupLoop b sz a ?g out (ls @ rest)"
    using groupLoop_join[OF p j] by simp
  have pre: "\<forall>l \<in> set ls. \<bar>of_int (fst (pixelForLink b sz l) - pixelX ?g)\<bar> \<le> pixelSpreadThreshold a
                        \<and> \<bar>of_int (snd (pixelForLink b sz l) - pixelY ?g)\<bar> \<le> pixelSpreadThreshold a"
    using Cons.prems by simp
  show ?case
    unfolding st Cons.IH[OF pre] by (simp add: add.assoc)
qed

lemma groupLoop_flush_plain:
  assumes "pixelForLink b sz link = (px, py)"
    and "pixelSpreadThreshold a < \<bar>of_int (px - pixelX g)\<bar>
         \<or> pixelSpreadThreshold a < \<bar>of_int (py - pixelY g)\<bar>"
    and "pixelGapOf (px - pixelX g) (py - pixelY g) \<le> interpolationThreshold a"
  shows "groupLoop b sz a g out (link # rest)
       = groupLoop b sz a (newGroup link px py) (out @ [flushGroup g]) rest"
  using groupLoop_flush[OF assms(1,2), of out rest] assms(3) by simp

lemma length_serial_collapse:
  "links \<noteq> [] \<Longrightarrow> relativeSpread (viewBounds links) \<le> maxRelativeSpread a \<Longrightarrow>
   downsampleComplexSerial links sz a dbg = [averageOf links]"
  by (simp add: serial_nonempty)

lemma length_serial_pos:
  "links \<noteq> [] \<Longrightarrow> 1 \<le> length (downsampleComplexSerial links sz a dbg)"
  by (simp add: serial_nonempty Let_def)

lemma zigzag_pix:
  "viewBounds zigzag = \<lparr>minX = 0, maxX = 15, minY = 0, maxY = 15\<rparr>"
  "pixelForLink \<lparr>minX = 0, maxX = 15, minY = 0, maxY = 15\<rparr> 15 0 = (0, 0)"
  "pixelForLink \<lparr>minX = 0, maxX = 15, minY = 0, maxY = 15\<rparr> 15 (Complex 8 8) = (8, 8)"
  "pixelForLink \<lparr>minX = 0, maxX = 15, minY = 0, maxY = 15\<rparr> 15 (Complex 1 1) = (1, 1)"
  "pixelForLink \<lparr>minX = 0, maxX = 15, minY = 0, maxY = 15\<rparr> 15 (Complex 15 15) = (15, 15)"
  by (simp_all add: viewBounds_def zigzag_def boundsLoop_Cons boundsLoop.simps(1)
        pixelForLink_def axisPixel_def go_int_def math_Round_def)

lemma zigzag_three: "length (downsampleComplexSerial zigzag 15 3 dbg) = 2"
proof -
  let ?B = "\<lparr>minX = 0, maxX = 15, minY = 0, maxY = 15\<rparr>"
  have ne: "zigzag \<noteq> []" by (simp add: zigzag_def)
  have rs: "relativeSpread ?B = 1" by (simp add: relativeSpread_def Let_def)
  have mrs: "maxRelativeSpread 3 = 0.0125" by (simp add: maxRelativeSpread_def Let_def)
  have pst: "pixelSpreadThreshold 3 = 7" by (simp add: pixelSpreadThreshold_def)
  have ith: "interpolationThreshold 3 = 17.1875"
    by (simp add: interpolationThreshold_def Let_def power3_eq_cube)
  have gap: "pixelGapOf 8 8 \<le> 17.1875"
    unfolding pixelGapOf_def by (rule real_le_lsqrt) (simp_all add: power2_eq_square)
  have s1: "groupLoop ?B 15 3 (newGroup 0 0 0) [] (Complex 8 8 # rest)
          = groupLoop ?B 15 3 (newGroup (Complex 8 8) 8 8) [0] rest" for rest
    using gap
    by (subst groupLoop_flush_plain[OF zigzag_pix(3)]) (simp_all add: newGroup_sel pst ith flush_newGroup)
  define g1 where "g1 = (newGroup (Complex 8 8) 8 8)
                 \<lparr>sumv := sumv (newGroup (Complex 8 8) 8 8)
                            + sum_list [Complex 1 1, Complex 15 15, Complex 1 1, Complex 15 15],
                  count := count (newGroup (Complex 8 8) 8 8)
                            + int (length [Complex 1 1, Complex 15 15, Complex 1 1, Complex 15 15]),
                  lastLink := (if [Complex 1 1, Complex 15 15, Complex 1 1, Complex 15 15] = []
                               then lastLink (newGroup (Complex 8 8) 8 8)
                               else last [Complex 1 1, Complex 15 15, Complex 1 1, Complex 15 15])\<rparr>"
  have s2: "groupLoop ?B 15 3 (newGroup (Complex 8 8) 8 8) out
              [Complex 1 1, Complex 15 15, Complex 1 1, Complex 15 15]
          = groupLoop ?B 15 3 g1 out []" for out
    using groupLoop_run[where ls = "[Complex 1 1, Complex 15 15, Complex 1 1, Complex 15 15]"
        and b = ?B and sz = 15 and g = "newGroup (Complex 8 8) 8 8" and a = 3 and out = out
        and rest = "[]"]
    unfolding g1_def by (simp add: zigzag_pix newGroup_sel pst)
  have d: "drop 1 zigzag = [Complex 8 8, Complex 1 1, Complex 15 15, Complex 1 1, Complex 15 15]"
    "zigzag ! 0 = 0"
    by (simp_all add: zigzag_def)
  show ?thesis
    unfolding serial_nonempty[OF ne] zigzag_pix(1) d s1 s2
    using rs mrs by (simp add: zigzag_pix Let_def groupLoop.simps(1) s1 s2)
qed

lemma zigzag_four: "length (downsampleComplexSerial zigzag 15 4 dbg) = 4"
proof -
  let ?B = "\<lparr>minX = 0, maxX = 15, minY = 0, maxY = 15\<rparr>"
  have ne: "zigzag \<noteq> []" by (simp add: zigzag_def)
  have rs: "relativeSpread ?B = 1" by (simp add: relativeSpread_def Let_def)
  have mrs: "maxRelativeSpread 4 = 0.05" by (simp add: maxRelativeSpread_def Let_def)
  have pst: "pixelSpreadThreshold 4 = 9" by (simp add: pixelSpreadThreshold_def)
  have ith: "interpolationThreshold 4 = 75" by (simp add: interpolationThreshold_def Let_def)
  have gap: "pixelGapOf 15 15 \<le> 75" "pixelGapOf (- 14) (- 14) \<le> 75" "pixelGapOf 14 14 \<le> 75"
    unfolding pixelGapOf_def by (rule real_le_lsqrt; simp add: power2_eq_square)+
  define g1 where "g1 = (newGroup 0 0 0)
                 \<lparr>sumv := sumv (newGroup 0 0 0) + sum_list [Complex 8 8, Complex 1 1],
                  count := count (newGroup 0 0 0) + int (length [Complex 8 8, Complex 1 1]),
                  lastLink := (if [Complex 8 8, Complex 1 1] = []
                               then lastLink (newGroup 0 0 0)
                               else last [Complex 8 8, Complex 1 1])\<rparr>"
  have g1: "pixelX g1 = 0" "pixelY g1 = 0" by (simp_all add: g1_def newGroup_sel)
  have s1: "groupLoop ?B 15 4 (newGroup 0 0 0) [] (Complex 8 8 # Complex 1 1 # rest)
          = groupLoop ?B 15 4 g1 [] rest" for rest
    using groupLoop_run[where ls = "[Complex 8 8, Complex 1 1]"
        and b = ?B and sz = 15 and g = "newGroup 0 0 0" and a = 4 and out = "[]" and rest = rest]
    unfolding g1_def by (simp add: zigzag_pix newGroup_sel pst)
  have s2: "groupLoop ?B 15 4 g1 [] (Complex 15 15 # rest)
          = groupLoop ?B 15 4 (newGroup (Complex 15 15) 15 15) [flushGroup g1] rest" for rest
    using gap
    by (subst groupLoop_flush_plain[OF zigzag_pix(5)]) (simp_all add: g1 pst ith)
  have s3: "groupLoop ?B 15 4 (newGroup (Complex 15 15) 15 15) out (Complex 1 1 # rest)
          = groupLoop ?B 15 4 (newGroup (Complex 1 1) 1 1) (out @ [Complex 15 15]) rest" for rest out
    using gap
    by (subst groupLoop_flush_plain[OF zigzag_pix(4)]) (simp_all add: newGroup_sel pst ith flush_newGroup)
  have s4: "groupLoop ?B 15 4 (newGroup (Complex 1 1) 1 1) out (Complex 15 15 # rest)
          = groupLoop ?B 15 4 (newGroup (Complex 15 15) 15 15) (out @ [Complex 1 1]) rest" for rest out
    using gap
    by (subst groupLoop_flush_plain[OF zigzag_pix(5)]) (simp_all add: newGroup_sel pst ith flush_newGroup)
  have d: "drop 1 zigzag = [Complex 8 8, Complex 1 1, Complex 15 15, Complex 1 1, Complex 15 15]"
    "zigzag ! 0 = 0"
    by (simp_all add: zigzag_def)
  show ?thesis
    unfolding serial_nonempty[OF ne] zigzag_pix(1) d s1 s2 s3 s4
    using rs mrs by (simp add: zigzag_pix Let_def groupLoop.simps(1) s1 s2 s3 s4)
qed

lemma five_powr: "(5::real) powr 3.5 = 125 * sqrt 5"
proof -
  have e: "(3.5::real) = 3 + 1 / 2" by simp
  have "(5::real) powr (3 + 1 / 2) = 5 powr 3 * 5 powr (1 / 2)" by (rule powr_add)
  also have "\<dots> = 125 * sqrt 5" by (simp add: powr_half_sqrt)
  finally show ?thesis unfolding e .
qed

lemma maxRelativeSpread_mono:
  assumes "a1 \<le> a2"
  shows "maxRelativeSpread a1 \<le> maxRelativeSpread a2"
proof -
  have low: "maxRelativeSpread a = (if a > 0 then 0.0001 * 5 powr a else 0.0001)" if "a \<le> 3.5" for a
    using that by (simp add: maxRelativeSpread_def Let_def)
  have high: "maxRelativeSpread a = 0.03 + 0.02 * ((a - 3.5) / 0.5)" if "a > 3.5" for a
    using that by (simp add: maxRelativeSpread_def Let_def)
  have mono_low: "maxRelativeSpread a \<le> maxRelativeSpread b" if "a \<le> b" "b \<le> 3.5" for a b
  proof -
    have a35: "a \<le> 3.5" using that by simp
    show ?thesis
    proof (cases "a > 0")
      case True
      then have "b > 0" using that by simp
      moreover have "(5::real) powr a \<le> 5 powr b" using that(1) by (intro powr_mono) simp_all
      ultimately show ?thesis using True by (simp add: low[OF a35] low[OF that(2)])
    next
      case False
      have "(1::real) \<le> 5 powr b" if "b > 0" using that by (intro ge_one_powr_ge_zero) simp_all
      then show ?thesis using False by (simp add: low[OF a35] low[OF that(2)])
    qed
  qed
  have top: "maxRelativeSpread 3.5 \<le> 0.03"
  proof -
    have e: "(5::real) powr 3.5 = 125 * sqrt 5" by (rule five_powr)
    have "sqrt 5 \<le> 2.4" by (rule real_le_lsqrt) (simp_all add: power2_eq_square)
    then show ?thesis using e by (simp add: low)
  qed
  show ?thesis
  proof (cases "a2 \<le> 3.5")
    case True
    then show ?thesis using assms by (intro mono_low)
  next
    case False
    then have h2: "a2 > 3.5" by simp
    show ?thesis
    proof (cases "a1 \<le> 3.5")
      case True
      have "maxRelativeSpread a1 \<le> maxRelativeSpread 3.5" using True by (intro mono_low) simp_all
      also have "\<dots> \<le> 0.03" by (rule top)
      also have "\<dots> \<le> maxRelativeSpread a2" using h2 by (simp add: high)
      finally show ?thesis .
    next
      case False
      then show ?thesis using assms h2 by (simp add: high)
    qed
  qed
qed

text \<open>
  Claim C9 (monotonic aggressiveness), as amended. The bound \<^const>\<open>maxRelativeSpread\<close>
  does not decrease when the aggressiveness grows, so an input that collapses to its mean
  at one aggressiveness collapses at every larger one; and whenever the input collapses at
  the larger aggressiveness, the output there is the single mean point, no longer than
  the output at the smaller aggressiveness.
\<close>

theorem collapse_monotone:
  assumes "links \<noteq> []" and "a1 \<le> a2"
  shows "(relativeSpread (viewBounds links) \<le> maxRelativeSpread a1
            \<longrightarrow> relativeSpread (viewBounds links) \<le> maxRelativeSpread a2)
       \<and> (relativeSpread (viewBounds links) \<le> maxRelativeSpread a2
            \<longrightarrow> downsampleComplexSerial links outputSize a2 debug = [averageOf links]
              \<and> length (downsampleComplexSerial links outputSize a2 debug)
                  \<le> length (downsampleComplexSerial links outputSize a1 debug))"
proof -
  have "length (downsampleComplexSerial links outputSize a2 debug)
          \<le> length (downsampleComplexSerial links outputSize a1 debug)"
    if "relativeSpread (viewBounds links) \<le> maxRelativeSpread a2"
    using length_serial_collapse[OF assms(1) that, of outputSize debug]
          length_serial_pos[OF assms(1), of outputSize a1 debug] by simp
  then show ?thesis
    using maxRelativeSpread_mono[OF assms(2)] length_serial_collapse[OF assms(1)]
    by auto
qed

theorem collapse_monotone_witness:
  "threePoints \<noteq> [] \<and> (3.5::real) \<le> 4
   \<and> relativeSpread (viewBounds threePoints) \<le> maxRelativeSpread 3.5
   \<and> downsampleComplexSerial threePoints 2048 4 True = [averageOf threePoints]
   \<and> length (downsampleComplexSerial threePoints 2048 4 True)
       \<le> length (downsampleComplexSerial threePoints 2048 3.5 True)"
proof -
  have ne: "threePoints \<noteq> []" by (simp add: threePoints_def)
  have le: "(3.5::real) \<le> 4" by simp
  have vb: "viewBounds threePoints = \<lparr>minX = 1, maxX = 1.0002, minY = 1, maxY = 1.0002\<rparr>"
    by (simp add: viewBounds_def threePoints_def boundsLoop_Cons boundsLoop.simps(1))
  have "(1.6::real) \<le> sqrt 5" by (rule real_le_rsqrt) (simp add: power2_eq_square)
  then have "(200::real) \<le> 5 powr 3.5" unfolding five_powr by simp
  then have c: "relativeSpread (viewBounds threePoints) \<le> maxRelativeSpread 3.5"
    unfolding vb by (simp add: relativeSpread_def maxRelativeSpread_def Let_def)
  from collapse_monotone[OF ne le, of 2048 True] c ne le show ?thesis by blast
qed

text \<open>
  Without the collapse the point count is not monotone: the back-and-forth trajectory
  gives 2 points at aggressiveness 3 and 4 points at aggressiveness 4, at resolution 15.
  With the wider pixel threshold the first group swallows the point that anchors the
  second group at aggressiveness 3, and the later points then alternate between groups.
\<close>

theorem aggressiveness_not_monotone_counterexample:
  "(3::real) \<le> 4
   \<and> length (downsampleComplexSerial zigzag 15 3 False) = 2
   \<and> length (downsampleComplexSerial zigzag 15 4 False) = 4"
  by (simp add: zigzag_three zigzag_four)

lemma boundsLoop_replicate:
  "a \<le> Re z \<Longrightarrow> Re z \<le> b \<Longrightarrow> c \<le> Im z \<Longrightarrow> Im z \<le> d \<Longrightarrow>
   boundsLoop \<lparr>minX = a, maxX = b, minY = c, maxY = d\<rparr> (replicate n z)
   = \<lparr>minX = a, maxX = b, minY = c, maxY = d\<rparr>"
  by (induction n) (simp_all add: boundsLoop.simps(1) boundsLoop_Cons min_absorb1 max_absorb1)

lemma boundsLoop_append:
  "boundsLoop b (xs @ ys) = boundsLoop (boundsLoop b xs) ys"
  by (induction xs arbitrary: b) (simp_all add: boundsLoop.simps Let_def)

lemma boundary_bounds:
  "viewBounds boundaryInput = \<lparr>minX = 0, maxX = 100, minY = 0, maxY = 100\<rparr>"
proof -
  have h: "boundaryInput ! 0 = 0" by (simp add: boundaryInput_def nth_append)
  show ?thesis
    unfolding viewBounds_def h unfolding boundaryInput_def boundsLoop_append
    by (simp add: boundsLoop_replicate boundsLoop_Cons boundsLoop.simps(1))
qed

lemma boundary_pix:
  "pixelForLink \<lparr>minX = 0, maxX = 100, minY = 0, maxY = 100\<rparr> 100 0 = (0, 0)"
  "pixelForLink \<lparr>minX = 0, maxX = 100, minY = 0, maxY = 100\<rparr> 100 (Complex 100 100) = (100, 100)"
  by (simp_all add: pixelForLink_def axisPixel_def go_int_def math_Round_def)

lemma steps_boundary: "interpSteps 0 (sqrt 20000) = 141"
proof -
  have "\<lfloor>sqrt 20000\<rfloor> = 141" by (rule floor_sqrt) simp_all
  then show ?thesis by (simp add: interpSteps_def Let_def go_int_def)
qed

lemma ith_boundary: "interpolationThreshold 0 < sqrt 20000"
proof -
  have "(2::real) \<le> sqrt 20000" by (rule real_le_rsqrt) simp
  then show ?thesis by (simp add: interpolationThreshold_def Let_def)
qed

lemma run_zeros:
  assumes "pixelX g = 0" "pixelY g = 0" "sumv g = 0" "lastLink g = 0"
  shows "groupLoop \<lparr>minX = 0, maxX = 100, minY = 0, maxY = 100\<rparr> 100 0 g out (replicate k 0 @ rest)
       = groupLoop \<lparr>minX = 0, maxX = 100, minY = 0, maxY = 100\<rparr> 100 0
           (g\<lparr>sumv := 0, count := count g + int k, lastLink := 0\<rparr>) out rest"
proof -
  have pst: "pixelSpreadThreshold 0 = 1" by (simp add: pixelSpreadThreshold_def)
  have "groupLoop \<lparr>minX = 0, maxX = 100, minY = 0, maxY = 100\<rparr> 100 0 g out (replicate k 0 @ rest)
      = groupLoop \<lparr>minX = 0, maxX = 100, minY = 0, maxY = 100\<rparr> 100 0
          (g\<lparr>sumv := sumv g + sum_list (replicate k 0), count := count g + int (length (replicate k (0::complex))),
              lastLink := (if replicate k (0::complex) = [] then lastLink g else last (replicate k 0))\<rparr>) out rest"
    by (rule groupLoop_run) (simp add: boundary_pix assms pst)
  also have "sum_list (replicate k (0::complex)) = 0" by (simp add: sum_list_replicate)
  finally show ?thesis using assms by (simp cong: if_cong)
qed

lemma flush_far:
  assumes "pixelX g = 0" "pixelY g = 0" "sumv g = 0" "lastLink g = 0" "count g \<noteq> 0"
  shows "groupLoop \<lparr>minX = 0, maxX = 100, minY = 0, maxY = 100\<rparr> 100 0 g out [Complex 100 100]
       = (newGroup (Complex 100 100) 100 100, out @ 0 # interpolate 0 (Complex 100 100) 141)"
proof -
  have pst: "pixelSpreadThreshold 0 = 1" by (simp add: pixelSpreadThreshold_def)
  have gap: "pixelGapOf 100 100 = sqrt 20000" by (simp add: pixelGapOf_def)
  have fl: "flushGroup g = 0" using assms by (simp add: flushGroup_def)
  show ?thesis
    using ith_boundary
    by (subst groupLoop_flush[OF boundary_pix(2)])
       (simp_all add: assms pst gap steps_boundary fl groupLoop.simps(1))
qed

lemma boundary_slices:
  "boundaryInput ! 0 = 0" "boundaryInput ! 5000 = 0"
  "take 4999 (drop 1 boundaryInput) = replicate 4999 0"
  "take 4999 (drop 5001 boundaryInput) = replicate 4998 0 @ [Complex 100 100]"
  "drop 1 boundaryInput = replicate 9998 0 @ [Complex 100 100]"
  "length boundaryInput = 10000"
  by (simp_all add: boundaryInput_def nth_append)

lemma boundary_chunk0:
  "processChunk \<lparr>minX = 0, maxX = 100, minY = 0, maxY = 100\<rparr> 100 0 boundaryInput 0 5000 = chunk0"
proof -
  have r: "groupLoop \<lparr>minX = 0, maxX = 100, minY = 0, maxY = 100\<rparr> 100 0 (newGroup 0 0 0) []
             (replicate 4999 0)
         = ((newGroup 0 0 0)\<lparr>sumv := 0, count := count (newGroup 0 0 0) + int 4999, lastLink := 0\<rparr>, [])"
    using run_zeros[where g = "newGroup 0 0 0" and k = 4999 and rest = "[]" and out = "[]"]
    by (simp add: newGroup_sel groupLoop.simps(1))
  have n: "nat (5000 - (0 + 1)) = 4999" "nat (0 + 1) = 1" "nat 0 = 0" by simp_all
  show ?thesis
    unfolding processChunk_def n boundary_slices boundary_pix
    by (simp add: r chunk0_def flushGroup_def newGroup_sel)
qed

lemma boundary_chunk1:
  "processChunk \<lparr>minX = 0, maxX = 100, minY = 0, maxY = 100\<rparr> 100 0 boundaryInput 5000 10000 = chunk1"
proof -
  let ?g = "(newGroup 0 0 0)\<lparr>sumv := 0, count := count (newGroup 0 0 0) + int 4998, lastLink := 0\<rparr>"
  have r: "groupLoop \<lparr>minX = 0, maxX = 100, minY = 0, maxY = 100\<rparr> 100 0 (newGroup 0 0 0) []
             (replicate 4998 0 @ [Complex 100 100])
         = (newGroup (Complex 100 100) 100 100, [] @ 0 # interpolate 0 (Complex 100 100) 141)"
    by (subst run_zeros, simp_all add: newGroup_sel)
       (subst flush_far, simp_all add: newGroup_sel)
  have n: "nat (10000 - (5000 + 1)) = 4999" "nat (5000 + 1) = 5001" "nat 5000 = 5000" by simp_all
  show ?thesis
    unfolding processChunk_def n boundary_slices boundary_pix
    by (simp add: r chunk1_def flush_newGroup newGroup_sel)
qed

lemma boundary_collect:
  "collectChunks \<lparr>minX = 0, maxX = 100, minY = 0, maxY = 100\<rparr> 100 0 boundaryInput 2 = [chunk0, chunk1]"
proof -
  have q: "go_quot (int (length boundaryInput) + 2 - 1) 2 = 5000"
    by (simp add: boundary_slices go_quot_def)
  have u: "[0..<nat 2] = [0, Suc 0]" by (simp add: upt_rec)
  show ?thesis
    unfolding collectChunks_def q u Let_def
    by (simp add: boundary_slices boundary_chunk0 boundary_chunk1)
qed

lemma boundary_merge:
  "mergeLoop 0 [chunk0, chunk1] []
   = 0 # interpolate 0 0 141 @ 0 # interpolate 0 (Complex 100 100) 141 @ [Complex 100 100]"
proof -
  have gap: "pixelGapOf 100 100 = sqrt 20000" by (simp add: pixelGapOf_def)
  show ?thesis
    using ith_boundary
    by (simp add: chunk0_def chunk1_def Let_def gap steps_boundary mergeLoop.simps)
qed

lemma boundary_serial:
  "downsampleComplexSerial boundaryInput 100 0 dbg
   = 0 # interpolate 0 (Complex 100 100) 141 @ [Complex 100 100]"
proof -
  have ne: "boundaryInput \<noteq> []" by (simp add: boundaryInput_def)
  have rs: "relativeSpread \<lparr>minX = 0, maxX = 100, minY = 0, maxY = 100\<rparr> = 1"
    by (simp add: relativeSpread_def Let_def)
  have mrs: "maxRelativeSpread 0 = 0.0001" by (simp add: maxRelativeSpread_def Let_def)
  have r: "groupLoop \<lparr>minX = 0, maxX = 100, minY = 0, maxY = 100\<rparr> 100 0 (newGroup 0 0 0) []
             (replicate 9998 0 @ [Complex 100 100])
         = (newGroup (Complex 100 100) 100 100, [] @ 0 # interpolate 0 (Complex 100 100) 141)"
    by (subst run_zeros, simp_all add: newGroup_sel)
       (subst flush_far, simp_all add: newGroup_sel)
  show ?thesis
    unfolding serial_nonempty[OF ne] boundary_bounds boundary_slices boundary_pix
    using rs mrs by (simp add: r flush_newGroup Let_def)
qed

text \<open>
  Claim C8 (the gap check at a chunk boundary). The merge loop measures the gap between
  the bin of the last group of chunk \<open>i\<close> and the bin of the \<^emph>\<open>last\<close> group of chunk
  \<open>i + 1\<close> (\<^verbatim>\<open>collected[i+1].lastPx\<close>), not the bin of the first point that chunk
  \<open>i + 1\<close> emitted. On the input above, run with two workers at resolution 100 and
  aggressiveness 0, the last point emitted by chunk 0 and the first point emitted by
  chunk 1 are both the origin, in pixel bin \<open>(0,0)\<close>: the boundary gap is zero. The merge
  nevertheless inserts 141 interpolated points between them, because chunk 1 ends in bin
  \<open>(100,100)\<close>. The serial downsampler returns 143 points on this input, the parallel
  one 285.
\<close>

theorem chunk_boundary_wrong_bin:
  "collectChunks (viewBounds boundaryInput) 100 0 boundaryInput 2 = [chunk0, chunk1]
   \<and> pixelForLink (viewBounds boundaryInput) 100 (last (points chunk0)) = (0, 0)
   \<and> pixelForLink (viewBounds boundaryInput) 100 (hd (points chunk1)) = (0, 0)
   \<and> downsampleComplex 2 boundaryInput 100 0 False
       = 0 # interpolate 0 0 141 @ 0 # interpolate 0 (Complex 100 100) 141 @ [Complex 100 100]
   \<and> downsampleComplexSerial boundaryInput 100 0 False
       = 0 # interpolate 0 (Complex 100 100) 141 @ [Complex 100 100]"
proof -
  have rs: "relativeSpread \<lparr>minX = 0, maxX = 100, minY = 0, maxY = 100\<rparr> = 1"
    by (simp add: relativeSpread_def Let_def)
  have mrs: "maxRelativeSpread 0 = 0.0001" by (simp add: maxRelativeSpread_def Let_def)
  have "downsampleComplex 2 boundaryInput 100 0 False
      = mergeLoop 0 (collectChunks (viewBounds boundaryInput) 100 0 boundaryInput 2) []"
    using rs mrs by (simp add: downsampleComplex_def boundary_slices Let_def boundary_bounds)
  also have "\<dots> = mergeLoop 0 [chunk0, chunk1] []"
    by (simp only: boundary_bounds boundary_collect)
  finally have p: "downsampleComplex 2 boundaryInput 100 0 False
      = 0 # interpolate 0 0 141 @ 0 # interpolate 0 (Complex 100 100) 141 @ [Complex 100 100]"
    by (simp only: boundary_merge)
  have c: "collectChunks (viewBounds boundaryInput) 100 0 boundaryInput 2 = [chunk0, chunk1]"
    by (simp only: boundary_bounds boundary_collect)
  have x: "pixelForLink (viewBounds boundaryInput) 100 (last (points chunk0)) = (0, 0)"
          "pixelForLink (viewBounds boundaryInput) 100 (hd (points chunk1)) = (0, 0)"
    unfolding boundary_bounds by (simp_all add: chunk0_def chunk1_def boundary_pix)
  from p c x boundary_serial[of False] show ?thesis by blast
qed

end
